theory Spec2Isabelle
  imports Main "HOL-Library.Word"
begin

section \<open>JavaScript values\<close>

text \<open>
  A JavaScript string is a sequence of 16-bit code units; \<open>length\<close> counts code units, as
  the \<^verbatim>\<open>.length\<close> of the source does. \<open>js\<close> turns an ASCII literal of the source into
  such a string. A \<^verbatim>\<open>Uint8Array\<close> is a list of bytes. A \<^verbatim>\<open>Date\<close> is its number of
  milliseconds.
\<close>

type_synonym code_unit = "16 word"
type_synonym jsstring = "code_unit list"
type_synonym byte = "8 word"
type_synonym date = nat

definition js :: "string \<Rightarrow> jsstring" where
  "js s = map (\<lambda>c. of_nat (of_char c)) s"

section \<open>The message model (models/message.ts)\<close>

subsection \<open>The record store\<close>

text \<open>
  The \<^verbatim>\<open>Message\<close> interface of the source: \<^verbatim>\<open>content\<close>, \<^verbatim>\<open>readAt?\<close> and \<^verbatim>\<open>stub\<close>.
  The table is the list of its rows, in insertion order. The columns \<^verbatim>\<open>id\<close>,
  \<^verbatim>\<open>createdAt\<close> and \<^verbatim>\<open>updatedAt\<close> are assigned by the store and read by no function
  of the model, so the rows do not carry them.
\<close>

record message =
  content :: jsstring
  readAt :: "date option"
  stub :: jsstring

type_synonym table = "message list"

text \<open>
  What a call can throw: the \<^verbatim>\<open>ModelValidationError\<close> of lib/modelValidationError.ts with its
  \<^verbatim>\<open>errors\<close> dictionary (field name to messages, in insertion order) and its \<^verbatim>\<open>name\<close>,
  and the two errors of the Prisma client that the calls of the model can meet: the unique
  index on \<^verbatim>\<open>stub\<close> refusing an insert, and an update or delete of a row that is not there.
\<close>

type_synonym errors = "(string \<times> string list) list"

datatype error =
    ModelValidationError errors string
  | UniqueConstraintFailed
  | RecordNotFound

definition findUnique :: "table \<Rightarrow> jsstring \<Rightarrow> message option" where
  "findUnique db s = find (\<lambda>m. stub m = s) db"

definition findMany_stub_in :: "table \<Rightarrow> jsstring list \<Rightarrow> jsstring list" where
  "findMany_stub_in db cands = map stub (filter (\<lambda>m. stub m \<in> set cands) db)"

definition prisma_create :: "table \<Rightarrow> jsstring \<Rightarrow> jsstring \<Rightarrow> error + message \<times> table" where
  "prisma_create db c s =
     (if findUnique db s \<noteq> None then Inl UniqueConstraintFailed
      else (let m = \<lparr>content = c, readAt = None, stub = s\<rparr> in Inr (m, db @ [m])))"

fun update_row :: "table \<Rightarrow> jsstring \<Rightarrow> message \<Rightarrow> table" where
  "update_row [] s m' = []"
| "update_row (m # db) s m' = (if stub m = s then m' # db else m # update_row db s m')"

definition prisma_update :: "table \<Rightarrow> jsstring \<Rightarrow> jsstring \<Rightarrow> date \<Rightarrow> error + message \<times> table" where
  "prisma_update db s c d =
     (case findUnique db s of
        None \<Rightarrow> Inl RecordNotFound
      | Some m \<Rightarrow> (let m' = m\<lparr>content := c, readAt := Some d\<rparr> in Inr (m', update_row db s m')))"

definition prisma_delete :: "table \<Rightarrow> jsstring \<Rightarrow> error + message \<times> table" where
  "prisma_delete db s =
     (case findUnique db s of
        None \<Rightarrow> Inl RecordNotFound
      | Some m \<Rightarrow> Inr (m, filter (\<lambda>r. stub r \<noteq> s) db))"

subsection \<open>The secure random generator\<close>

text \<open>
  The generator is the sequence of the numbers it will hand out. \<^verbatim>\<open>crypto.randomInt(n)\<close>
  takes the next one, reduced into \<open>0 \<le> k < n\<close>, and leaves the rest.
\<close>

type_synonym rng = "nat \<Rightarrow> nat"

definition randomInt :: "nat \<Rightarrow> rng \<Rightarrow> nat \<times> rng" where
  "randomInt n g = (g 0 mod n, \<lambda>i. g (Suc i))"

subsection \<open>generateUniqueStub\<close>

definition characters :: jsstring where
  "characters = js ''ABCDEFGHIJKLMNOPQRSTUVWXYZabcdefghijklmnopqrstuvwxyz0123456789''"

text \<open>One candidate: \<^verbatim>\<open>stubLength\<close> characters, each drawn with \<^verbatim>\<open>crypto.randomInt\<close>.\<close>

fun candidate :: "nat \<Rightarrow> rng \<Rightarrow> jsstring \<times> rng" where
  "candidate 0 g = ([], g)"
| "candidate (Suc n) g =
     (case randomInt (length characters) g of
        (k, g1) \<Rightarrow> (case candidate n g1 of (cs, g2) \<Rightarrow> (characters ! k # cs, g2)))"

text \<open>The inner loop: a batch of \<^verbatim>\<open>batchSize\<close> candidates, in the order they are pushed.\<close>

fun candidates :: "nat \<Rightarrow> nat \<Rightarrow> rng \<Rightarrow> jsstring list \<times> rng" where
  "candidates 0 stubLength g = ([], g)"
| "candidates (Suc n) stubLength g =
     (case candidate stubLength g of
        (c, g1) \<Rightarrow> (case candidates n stubLength g1 of (cs, g2) \<Rightarrow> (c # cs, g2)))"

text \<open>
  The outer loop, on the number of retries that are left: query the store for the batch,
  return the first candidate the store does not hold, otherwise go round again; \<open>None\<close> is
  the \<^verbatim>\<open>null\<close> returned when no retry is left.
\<close>

fun generateUniqueStub_loop :: "table \<Rightarrow> nat \<Rightarrow> nat \<Rightarrow> nat \<Rightarrow> rng \<Rightarrow> jsstring option \<times> rng" where
  "generateUniqueStub_loop db batchSize 0 stubLength g = (None, g)"
| "generateUniqueStub_loop db batchSize (Suc left) stubLength g =
     (case candidates batchSize stubLength g of
        (cands, g1) \<Rightarrow>
          (let stubs = findMany_stub_in db cands in
           case find (\<lambda>c. c \<notin> set stubs) cands of
             Some c \<Rightarrow> (Some c, g1)
           | None \<Rightarrow> generateUniqueStub_loop db batchSize left stubLength g1))"

definition generateUniqueStub :: "table \<Rightarrow> nat \<Rightarrow> nat \<Rightarrow> nat \<Rightarrow> rng \<Rightarrow> jsstring option \<times> rng" where
  "generateUniqueStub db batchSize retries stubLength g =
     generateUniqueStub_loop db batchSize retries stubLength g"

subsection \<open>validateMessage\<close>

text \<open>The character class \<^verbatim>\<open>[a-zA-Z0-9]\<close> of the regular expression, on code units.\<close>

definition alphanumeric :: "code_unit \<Rightarrow> bool" where
  "alphanumeric c =
     ((0x61 \<le> unat c \<and> unat c \<le> 0x7A) \<or> (0x41 \<le> unat c \<and> unat c \<le> 0x5A)
      \<or> (0x30 \<le> unat c \<and> unat c \<le> 0x39))"

text \<open>
  The two arrays of the \<^verbatim>\<open>errors\<close> object, each filled by the \<^verbatim>\<open>push\<close> calls of the source
  in their order.
\<close>

definition content_errors :: "message \<Rightarrow> string list" where
  "content_errors d =
     (if content d = [] then [''Content is required''] else []) @
     (if length (content d) > 10000 then [''Content is too long''] else [])"

definition stub_errors :: "table \<Rightarrow> message \<Rightarrow> string list" where
  "stub_errors db d =
     (if stub d = [] then [''Stub is required''] else []) @
     (if length (stub d) < 8 \<or> length (stub d) > 32
      then [''Stub must be between 8 and 32 characters''] else []) @
     (if findUnique db (stub d) \<noteq> None then [''Stub must be unique''] else []) @
     (if list_ex (\<lambda>c. \<not> alphanumeric c) (stub d) then [''Stub must be alphanumeric''] else [])"

definition validateMessage :: "table \<Rightarrow> message \<Rightarrow> error + unit" where
  "validateMessage db d =
     (let errs = [(''content'', content_errors d), (''stub'', stub_errors db d)] in
      if list_ex (\<lambda>e. length e > 0) (map snd errs)
      then Inl (ModelValidationError errs ''Message'')
      else Inr ())"

subsection \<open>createMessage, getMessage, deleteMessage, markMessageAsRead\<close>

text \<open>
  \<^verbatim>\<open>(await generateUniqueStub()) || ''\<close>: the defaults are a batch of 5, 3 retries and
  8 characters, and \<^verbatim>\<open>null\<close> becomes the empty string.
\<close>

definition createMessage :: "table \<Rightarrow> rng \<Rightarrow> jsstring \<Rightarrow> (error + message) \<times> table \<times> rng" where
  "createMessage db g c =
     (case generateUniqueStub db 5 3 8 g of
        (r, g1) \<Rightarrow>
          (let s = (case r of None \<Rightarrow> [] | Some s \<Rightarrow> s) in
           case validateMessage db \<lparr>content = c, readAt = None, stub = s\<rparr> of
             Inl e \<Rightarrow> (Inl e, db, g1)
           | Inr u \<Rightarrow>
               (case prisma_create db c s of
                  Inl e \<Rightarrow> (Inl e, db, g1)
                | Inr (m, db') \<Rightarrow> (Inr m, db', g1))))"

definition deleteMessage :: "table \<Rightarrow> jsstring \<Rightarrow> (error + message) \<times> table" where
  "deleteMessage db s =
     (case prisma_delete db s of Inl e \<Rightarrow> (Inl e, db) | Inr (m, db') \<Rightarrow> (Inr m, db'))"

definition getMessage :: "table \<Rightarrow> jsstring \<Rightarrow> message option" where
  "getMessage db s = findUnique db s"

text \<open>
  \<open>now\<close> is what \<^verbatim>\<open>new Date()\<close> reads. The result is the value the call returns (\<open>None\<close> for
  \<^verbatim>\<open>null\<close>) or the error it throws, and the table it leaves.
\<close>

definition markMessageAsRead :: "table \<Rightarrow> jsstring \<Rightarrow> date \<Rightarrow> (error + message option) \<times> table" where
  "markMessageAsRead db s now =
     (case findUnique db s of
        None \<Rightarrow> (Inr None, db)
      | Some m \<Rightarrow>
          if readAt m \<noteq> None then (Inr None, db)
          else (case prisma_update db s (js ''DEADBEEF'') now of
                  Inl e \<Rightarrow> (Inl e, db)
                | Inr (m', db') \<Rightarrow> (Inr (Some m'), db')))"

section \<open>The creation endpoint (app/api/message/route.ts)\<close>

datatype response_body =
    StubBody jsstring
  | ErrorsBody errors
  | ErrorBody string

record response =
  status :: nat
  body :: response_body

text \<open>\<open>text\<close> is what \<^verbatim>\<open>await request.text()\<close> yields: the request body as it was sent.\<close>

definition POST :: "table \<Rightarrow> rng \<Rightarrow> jsstring \<Rightarrow> response \<times> table \<times> rng" where
  "POST db g text =
     (case createMessage db g text of
        (Inr m, db', g') \<Rightarrow> (\<lparr>status = 200, body = StubBody (stub m)\<rparr>, db', g')
      | (Inl (ModelValidationError errs n), db', g') \<Rightarrow>
          (\<lparr>status = 422, body = ErrorsBody errs\<rparr>, db', g')
      | (Inl e, db', g') \<Rightarrow>
          (\<lparr>status = 500, body = ErrorBody ''An unexpected error has occurred''\<rparr>, db', g'))"

section \<open>Overlapping calls of markMessageAsRead\<close>

text \<open>
  \<^verbatim>\<open>markMessageAsRead\<close> awaits the store twice: \<^verbatim>\<open>findUnique\<close>, then \<^verbatim>\<open>update\<close>. The
  server runs one call until it awaits, so between the two queries of one call the store
  may answer the queries of another. A call is in one of three states: it waits for
  \<^verbatim>\<open>findUnique\<close>; it has found an unread record, has read the clock, and waits for
  \<^verbatim>\<open>update\<close>; or it has returned. \<open>Returned found r\<close> keeps what \<^verbatim>\<open>findUnique\<close> had
  given the call and what the call returned (or threw).
\<close>

datatype call =
    Finding
  | Updating message date
  | Returned "message option" "error + message option"

fun call_step :: "jsstring \<Rightarrow> date \<Rightarrow> table \<Rightarrow> call \<Rightarrow> call \<times> table" where
  "call_step s now db Finding =
     (case findUnique db s of
        None \<Rightarrow> (Returned None (Inr None), db)
      | Some m \<Rightarrow>
          if readAt m \<noteq> None then (Returned (Some m) (Inr None), db)
          else (Updating m now, db))"
| "call_step s now db (Updating m d) =
     (case prisma_update db s (js ''DEADBEEF'') d of
        Inl e \<Rightarrow> (Returned (Some m) (Inl e), db)
      | Inr (m', db') \<Rightarrow> (Returned (Some m) (Inr (Some m')), db'))"
| "call_step s now db (Returned found r) = (Returned found r, db)"

text \<open>
  A schedule lists, in the order the store answers them, which call is answered and what
  the clock reads then. All calls are for the same stub \<open>s\<close>.
\<close>

fun run :: "jsstring \<Rightarrow> (nat \<times> date) list \<Rightarrow> table \<times> call list \<Rightarrow> table \<times> call list" where
  "run s [] cfg = cfg"
| "run s ((i, now) # sched) (db, cs) =
     (if i < length cs
      then (case call_step s now db (cs ! i) of (c', db') \<Rightarrow> run s sched (db', cs[i := c']))
      else run s sched (db, cs))"

section \<open>The browser's text and base64 codecs\<close>

subsection \<open>TextEncoder and TextDecoder\<close>

text \<open>
  \<^verbatim>\<open>TextEncoder.encode\<close> first turns the string into scalar values: a surrogate pair
  becomes its code point, a surrogate without its partner becomes U+FFFD. Each scalar
  value is then written in UTF-8.
\<close>

definition lead_surrogate :: "nat \<Rightarrow> bool" where
  "lead_surrogate u = (0xD800 \<le> u \<and> u \<le> 0xDBFF)"

definition trail_surrogate :: "nat \<Rightarrow> bool" where
  "trail_surrogate u = (0xDC00 \<le> u \<and> u \<le> 0xDFFF)"

fun scalar_values :: "nat list \<Rightarrow> nat list" where
  "scalar_values [] = []"
| "scalar_values [u] = [if lead_surrogate u \<or> trail_surrogate u then 0xFFFD else u]"
| "scalar_values (u # v # us) =
     (if lead_surrogate u then
        (if trail_surrogate v
         then (0x10000 + (u - 0xD800) * 0x400 + (v - 0xDC00)) # scalar_values us
         else 0xFFFD # scalar_values (v # us))
      else if trail_surrogate u then 0xFFFD # scalar_values (v # us)
      else u # scalar_values (v # us))"

definition utf8_bytes :: "nat \<Rightarrow> nat list" where
  "utf8_bytes cp =
     (if cp \<le> 0x7F then [cp]
      else if cp \<le> 0x7FF then [0xC0 + cp div 64, 0x80 + cp mod 64]
      else if cp \<le> 0xFFFF then [0xE0 + cp div 4096, 0x80 + cp div 64 mod 64, 0x80 + cp mod 64]
      else [0xF0 + cp div 262144, 0x80 + cp div 4096 mod 64, 0x80 + cp div 64 mod 64,
            0x80 + cp mod 64])"

definition TextEncoder_encode :: "jsstring \<Rightarrow> byte list" where
  "TextEncoder_encode s = map of_nat (concat (map utf8_bytes (scalar_values (map unat s))))"

text \<open>
  \<^verbatim>\<open>new TextDecoder()\<close> is the UTF-8 decoder of the Encoding standard, not fatal, with
  \<^verbatim>\<open>ignoreBOM\<close> false. The decoder keeps the code point it is building, the bytes seen and
  needed, and the bounds of the next byte. Its handler reads one byte and goes on, emits
  a code point, or fails; a failure inside a sequence puts the byte back, so the byte is
  read again by the reset decoder. A failure emits U+FFFD.
\<close>

record decoder =
  code_point :: nat
  bytes_seen :: nat
  bytes_needed :: nat
  lower_boundary :: nat
  upper_boundary :: nat

definition decoder_reset :: decoder where
  "decoder_reset = \<lparr>code_point = 0, bytes_seen = 0, bytes_needed = 0,
                     lower_boundary = 0x80, upper_boundary = 0xBF\<rparr>"

datatype handler_result = Continue | Emit nat | Failure | FailureRestore

definition utf8_handler :: "decoder \<Rightarrow> nat \<Rightarrow> decoder \<times> handler_result" where
  "utf8_handler st b =
     (if bytes_needed st = 0 then
        (if b \<le> 0x7F then (st, Emit b)
         else if 0xC2 \<le> b \<and> b \<le> 0xDF then
           (st\<lparr>bytes_needed := 1, code_point := b mod 32\<rparr>, Continue)
         else if 0xE0 \<le> b \<and> b \<le> 0xEF then
           (st\<lparr>lower_boundary := (if b = 0xE0 then 0xA0 else lower_boundary st),
               upper_boundary := (if b = 0xED then 0x9F else upper_boundary st),
               bytes_needed := 2, code_point := b mod 16\<rparr>, Continue)
         else if 0xF0 \<le> b \<and> b \<le> 0xF4 then
           (st\<lparr>lower_boundary := (if b = 0xF0 then 0x90 else lower_boundary st),
               upper_boundary := (if b = 0xF4 then 0x8F else upper_boundary st),
               bytes_needed := 3, code_point := b mod 8\<rparr>, Continue)
         else (st, Failure))
      else if b < lower_boundary st \<or> upper_boundary st < b then (decoder_reset, FailureRestore)
      else if bytes_seen st + 1 \<noteq> bytes_needed st then
        (st\<lparr>lower_boundary := 0x80, upper_boundary := 0xBF,
            code_point := code_point st * 64 + b mod 64, bytes_seen := bytes_seen st + 1\<rparr>,
         Continue)
      else (decoder_reset, Emit (code_point st * 64 + b mod 64)))"

fun utf8_decode :: "decoder \<Rightarrow> nat list \<Rightarrow> nat list" where
  "utf8_decode st [] = (if bytes_needed st \<noteq> 0 then [0xFFFD] else [])"
| "utf8_decode st (b # bs) =
     (case utf8_handler st b of
        (st', Continue) \<Rightarrow> utf8_decode st' bs
      | (st', Emit cp) \<Rightarrow> cp # utf8_decode st' bs
      | (st', Failure) \<Rightarrow> 0xFFFD # utf8_decode st' bs
      | (st', FailureRestore) \<Rightarrow>
          0xFFFD #
          (case utf8_handler st' b of
             (st'', Continue) \<Rightarrow> utf8_decode st'' bs
           | (st'', Emit cp) \<Rightarrow> cp # utf8_decode st'' bs
           | (st'', _) \<Rightarrow> 0xFFFD # utf8_decode st'' bs))"

text \<open>A code point above U+FFFF is written as a surrogate pair.\<close>

definition utf16_units :: "nat \<Rightarrow> nat list" where
  "utf16_units cp =
     (if cp \<le> 0xFFFF then [cp]
      else [0xD800 + (cp - 0x10000) div 0x400, 0xDC00 + (cp - 0x10000) mod 0x400])"

text \<open>The first code point decoded is dropped when it is the byte order mark U+FEFF.\<close>

definition strip_bom :: "nat list \<Rightarrow> nat list" where
  "strip_bom cps = (case cps of [] \<Rightarrow> [] | cp # rest \<Rightarrow> if cp = 0xFEFF then rest else cps)"

definition TextDecoder_decode :: "byte list \<Rightarrow> jsstring" where
  "TextDecoder_decode bs =
     map of_nat (concat (map utf16_units (strip_bom (utf8_decode decoder_reset (map unat bs)))))"

subsection \<open>btoa and atob\<close>

definition b64_char :: "nat \<Rightarrow> nat" where
  "b64_char v =
     (if v < 26 then 0x41 + v
      else if v < 52 then 0x61 + (v - 26)
      else if v < 62 then 0x30 + (v - 52)
      else if v = 62 then 0x2B
      else 0x2F)"

definition b64_value :: "nat \<Rightarrow> nat option" where
  "b64_value c =
     (if 0x41 \<le> c \<and> c \<le> 0x5A then Some (c - 0x41)
      else if 0x61 \<le> c \<and> c \<le> 0x7A then Some (c - 0x61 + 26)
      else if 0x30 \<le> c \<and> c \<le> 0x39 then Some (c - 0x30 + 52)
      else if c = 0x2B then Some 62
      else if c = 0x2F then Some 63
      else None)"

text \<open>Three bytes make four 6-bit values; a last group of one or two bytes makes two or three.\<close>

fun b64_sextets :: "nat list \<Rightarrow> nat list" where
  "b64_sextets [] = []"
| "b64_sextets [a] = [a div 4, (a mod 4) * 16]"
| "b64_sextets [a, b] = [a div 4, (a mod 4) * 16 + b div 16, (b mod 16) * 4]"
| "b64_sextets (a # b # c # bs) =
     [a div 4, (a mod 4) * 16 + b div 16, (b mod 16) * 4 + c div 64, c mod 64] @ b64_sextets bs"

definition b64_encode :: "nat list \<Rightarrow> nat list" where
  "b64_encode bs =
     map b64_char (b64_sextets bs) @ replicate ((3 - length bs mod 3) mod 3) 0x3D"

text \<open>
  \<^verbatim>\<open>btoa\<close> throws an \<^verbatim>\<open>InvalidCharacterError\<close> on a code unit above 0xFF. \<^verbatim>\<open>RangeError\<close>
  is what \<^verbatim>\<open>Function.prototype.apply\<close> throws on more arguments than the engine takes,
  \<^verbatim>\<open>OperationError\<close> what \<^verbatim>\<open>crypto.subtle.decrypt\<close> rejects with.
\<close>

datatype dom_error = InvalidCharacterError | OperationError | RangeError

definition btoa :: "jsstring \<Rightarrow> dom_error + jsstring" where
  "btoa s =
     (if list_ex (\<lambda>c. 0xFF < unat c) s then Inl InvalidCharacterError
      else Inr (map of_nat (b64_encode (map unat s))))"

text \<open>
  \<^verbatim>\<open>atob\<close> is the forgiving base64 decoding of the HTML standard: ASCII whitespace is
  removed; when the length is then a multiple of 4, one or two \<^verbatim>\<open>=\<close> at the end are
  removed; a length that is 1 modulo 4 fails, and so does a character outside the
  alphabet; four 6-bit values make three bytes, and the spare bits of a last group of
  two or three values are dropped.
\<close>

definition ascii_whitespace :: "nat \<Rightarrow> bool" where
  "ascii_whitespace c = (c = 0x09 \<or> c = 0x0A \<or> c = 0x0C \<or> c = 0x0D \<or> c = 0x20)"

definition strip_padding :: "nat list \<Rightarrow> nat list" where
  "strip_padding d =
     (if length d mod 4 = 0 then
        (if 2 \<le> length d \<and> last d = 0x3D \<and> last (butlast d) = 0x3D then butlast (butlast d)
         else if 1 \<le> length d \<and> last d = 0x3D then butlast d
         else d)
      else d)"

fun b64_octets :: "nat list \<Rightarrow> nat list" where
  "b64_octets [] = []"
| "b64_octets [v] = []"
| "b64_octets [v, w] = [v * 4 + w div 16]"
| "b64_octets [v, w, x] = [v * 4 + w div 16, (w mod 16) * 16 + x div 4]"
| "b64_octets (v # w # x # y # vs) =
     [v * 4 + w div 16, (w mod 16) * 16 + x div 4, (x mod 4) * 64 + y] @ b64_octets vs"

definition b64_decode :: "nat list \<Rightarrow> nat list option" where
  "b64_decode cs =
     (let d = strip_padding (filter (\<lambda>c. \<not> ascii_whitespace c) cs) in
      if length d mod 4 = 1 then None
      else (case those (map b64_value d) of
              None \<Rightarrow> None
            | Some vs \<Rightarrow> Some (b64_octets vs)))"

definition atob :: "jsstring \<Rightarrow> dom_error + jsstring" where
  "atob s =
     (case b64_decode (map unat s) of
        None \<Rightarrow> Inl InvalidCharacterError
      | Some bs \<Rightarrow> Inr (map of_nat bs))"

section \<open>The envelope (lib/crypto.ts)\<close>

text \<open>
  PBKDF2 and AES-GCM are the browser's. The model takes them as they are specified:
  \<open>pbkdf2_sha256\<close> maps the password bytes, the salt and the iteration count to the 256-bit
  key; \<open>aes_gcm_encrypt\<close> maps key, iv and plaintext to the ciphertext with its tag;
  \<open>aes_gcm_decrypt\<close> gives the plaintext back, or \<open>None\<close> when it rejects.
  \<open>max_arguments\<close> is the largest number of arguments the engine lets
  \<^verbatim>\<open>Function.prototype.apply\<close> pass.
\<close>

type_synonym key = "byte list"

record platform =
  pbkdf2_sha256 :: "byte list \<Rightarrow> byte list \<Rightarrow> nat \<Rightarrow> key"
  aes_gcm_encrypt :: "key \<Rightarrow> byte list \<Rightarrow> byte list \<Rightarrow> byte list"
  aes_gcm_decrypt :: "key \<Rightarrow> byte list \<Rightarrow> byte list \<Rightarrow> byte list option"
  max_arguments :: nat

text \<open>The calls made on \<^verbatim>\<open>window.crypto.subtle\<close>, in the order they are made.\<close>

datatype subtle_call = ImportKey | DeriveKey | Encrypt | Decrypt

record cipher_object =
  data :: jsstring
  iv :: jsstring
  salt :: jsstring

text \<open>\<^verbatim>\<open>window.crypto.getRandomValues(new Uint8Array(n))\<close>: the next \<open>n\<close> bytes of the generator.\<close>

definition getRandomValues :: "nat \<Rightarrow> rng \<Rightarrow> byte list \<times> rng" where
  "getRandomValues n g = (map (\<lambda>i. of_nat (g i)) [0..<n], \<lambda>i. g (i + n))"

definition arrayBufferToBase64 :: "platform \<Rightarrow> byte list \<Rightarrow> dom_error + jsstring" where
  "arrayBufferToBase64 P buffer =
     (if max_arguments P < length buffer then Inl RangeError
      else btoa (map ucast buffer))"

definition base64ToArrayBuffer :: "jsstring \<Rightarrow> dom_error + byte list" where
  "base64ToArrayBuffer base64 =
     (case atob base64 of
        Inl e \<Rightarrow> Inl e
      | Inr binary \<Rightarrow> Inr (map ucast binary))"

definition deriveKey :: "platform \<Rightarrow> jsstring \<Rightarrow> byte list \<Rightarrow> nat \<Rightarrow> key \<times> subtle_call list" where
  "deriveKey P password salt_bytes iterations =
     (pbkdf2_sha256 P (TextEncoder_encode password) salt_bytes iterations, [ImportKey, DeriveKey])"

definition encrypt ::
  "platform \<Rightarrow> rng \<Rightarrow> jsstring \<Rightarrow> jsstring \<Rightarrow> (dom_error + cipher_object) \<times> rng \<times> subtle_call list" where
  "encrypt P g plaintext password =
     (case getRandomValues 16 g of
        (salt_bytes, g1) \<Rightarrow>
          (case deriveKey P password salt_bytes 10000 of
             (k, calls) \<Rightarrow>
               (case getRandomValues 12 g1 of
                  (iv_bytes, g2) \<Rightarrow>
                    (let encryptedContent = aes_gcm_encrypt P k iv_bytes (TextEncoder_encode plaintext) in
                     case arrayBufferToBase64 P encryptedContent of
                       Inl e \<Rightarrow> (Inl e, g2, calls @ [Encrypt])
                     | Inr d \<Rightarrow>
                         (case arrayBufferToBase64 P iv_bytes of
                            Inl e \<Rightarrow> (Inl e, g2, calls @ [Encrypt])
                          | Inr i \<Rightarrow>
                              (case arrayBufferToBase64 P salt_bytes of
                                 Inl e \<Rightarrow> (Inl e, g2, calls @ [Encrypt])
                               | Inr s \<Rightarrow>
                                   (Inr \<lparr>data = d, iv = i, salt = s\<rparr>, g2, calls @ [Encrypt])))))))"

definition decrypt ::
  "platform \<Rightarrow> cipher_object \<Rightarrow> jsstring \<Rightarrow> (dom_error + jsstring) \<times> subtle_call list" where
  "decrypt P d password =
     (case base64ToArrayBuffer (iv d) of
        Inl e \<Rightarrow> (Inl e, [])
      | Inr iv_bytes \<Rightarrow>
          (case base64ToArrayBuffer (salt d) of
             Inl e \<Rightarrow> (Inl e, [])
           | Inr salt_bytes \<Rightarrow>
               (case base64ToArrayBuffer (data d) of
                  Inl e \<Rightarrow> (Inl e, [])
                | Inr encryptedData \<Rightarrow>
                    (case deriveKey P password salt_bytes 10000 of
                       (k, calls) \<Rightarrow>
                         (case aes_gcm_decrypt P k iv_bytes encryptedData of
                            None \<Rightarrow> (Inl OperationError, calls @ [Decrypt])
                          | Some decryptedContent \<Rightarrow>
                              (Inr (TextDecoder_decode decryptedContent), calls @ [Decrypt]))))))"

section \<open>Notions used by the theorems\<close>

text \<open>
  A string is well formed when every surrogate is part of a pair: a lead surrogate is
  followed by a trail surrogate, and a trail surrogate follows a lead surrogate.
\<close>

fun paired :: "nat list \<Rightarrow> bool" where
  "paired [] = True"
| "paired [u] = (\<not> lead_surrogate u \<and> \<not> trail_surrogate u)"
| "paired (u # v # us) =
     (if lead_surrogate u then trail_surrogate v \<and> paired us
      else \<not> trail_surrogate u \<and> paired (v # us))"

definition well_formed :: "jsstring \<Rightarrow> bool" where
  "well_formed s = paired (map unat s)"

text \<open>A Unicode scalar value: a code point up to U+10FFFF that is not a surrogate.\<close>

definition scalar :: "nat \<Rightarrow> bool" where
  "scalar cp = (cp \<le> 0x10FFFF \<and> \<not> (0xD800 \<le> cp \<and> cp \<le> 0xDFFF))"

text \<open>
  What is assumed of the browser's AES-GCM: decryption under the key and iv of the
  encryption gives the plaintext back, and the ciphertext is the plaintext's length plus
  the 16 bytes of the tag.
\<close>

definition cipher_correct :: "platform \<Rightarrow> bool" where
  "cipher_correct P =
     (\<forall>k i p. aes_gcm_decrypt P k i (aes_gcm_encrypt P k i p) = Some p
        \<and> length (aes_gcm_encrypt P k i p) = length p + 16)"

text \<open>
  A small platform on which the theorems can be run: the key is 32 copies of a checksum
  of password, salt and iteration count, encryption adds the key's checksum to every byte
  and appends 16 copies of the iv's checksum as the tag, decryption checks the tag and
  subtracts. It stands in for PBKDF2 and AES-GCM only where a concrete platform is
  needed; it meets \<open>cipher_correct\<close>.
\<close>

definition toy_platform :: platform where
  "toy_platform =
     \<lparr>pbkdf2_sha256 = (\<lambda>pw s n. replicate 32 (sum_list pw + sum_list s + of_nat n)),
      aes_gcm_encrypt = (\<lambda>k i p. map (\<lambda>b. b + sum_list k) p @ replicate 16 (sum_list i)),
      aes_gcm_decrypt =
        (\<lambda>k i c. if 16 \<le> length c \<and> drop (length c - 16) c = replicate 16 (sum_list i)
                 then Some (map (\<lambda>b. b - sum_list k) (take (length c - 16) c))
                 else None),
      max_arguments = 65536\<rparr>"

text \<open>
  \<^verbatim>\<open>decrypt(await encrypt(plaintext, password), password)\<close>: what the recipient reads of
  what the sender wrote, or the error one of the two calls throws.
\<close>

definition roundtrip :: "platform \<Rightarrow> rng \<Rightarrow> jsstring \<Rightarrow> jsstring \<Rightarrow> dom_error + jsstring" where
  "roundtrip P g plaintext password =
     (case fst (encrypt P g plaintext password) of
        Inl e \<Rightarrow> Inl e
      | Inr env \<Rightarrow> fst (decrypt P env password))"

section \<open>Theorems\<close>

subsection \<open>markMessageAsRead on a missing or consumed record\<close>

text \<open>
  Claim C9. \<open>markMessageAsRead\<close> returns \<^verbatim>\<open>null\<close> both when no record has the stub and when
  the record is already read, so the return value does not tell the two apart; in both
  cases the table is left as it was (no write).
\<close>

theorem markMessageAsRead_null:
  assumes "findUnique db s = None \<or> (\<exists>m. findUnique db s = Some m \<and> readAt m \<noteq> None)"
  shows "markMessageAsRead db s now = (Inr None, db)"
  using assms by (auto simp: markMessageAsRead_def)

theorem markMessageAsRead_null_witness:
  "markMessageAsRead [] (js ''AAAAAAAA'') 7 = (Inr None, [])
   \<and> markMessageAsRead [\<lparr>content = js ''DEADBEEF'', readAt = Some 3, stub = js ''AAAAAAAA''\<rparr>]
        (js ''AAAAAAAA'') 7
      = (Inr None, [\<lparr>content = js ''DEADBEEF'', readAt = Some 3, stub = js ''AAAAAAAA''\<rparr>])"
proof -
  have a: "findUnique [] (js ''AAAAAAAA'') = None"
    by (simp add: findUnique_def)
  have b: "findUnique [\<lparr>content = js ''DEADBEEF'', readAt = Some 3, stub = js ''AAAAAAAA''\<rparr>]
             (js ''AAAAAAAA'')
           = Some \<lparr>content = js ''DEADBEEF'', readAt = Some 3, stub = js ''AAAAAAAA''\<rparr>"
    by (simp add: findUnique_def)
  show ?thesis
    using markMessageAsRead_null [of "[]" "js ''AAAAAAAA''" 7]
      markMessageAsRead_null [of "[\<lparr>content = js ''DEADBEEF'', readAt = Some 3, stub = js ''AAAAAAAA''\<rparr>]"
        "js ''AAAAAAAA''" 7] a b
    by simp
qed

subsection \<open>Facts about the generator and the validation\<close>

lemma js_Nil_iff: "js s = [] \<longleftrightarrow> s = []"
  by (simp add: js_def)

lemma length_js: "length (js s) = length s"
  by (simp add: js_def)

lemma candidate_const: "candidate n (\<lambda>i. k) = (replicate n (characters ! (k mod length characters)), \<lambda>i. k)"
  by (induction n) (simp_all add: randomInt_def)

lemma candidates_const:
  "candidates b n (\<lambda>i. k) = (replicate b (replicate n (characters ! (k mod length characters))), \<lambda>i. k)"
  by (induction b) (simp_all add: candidate_const)

lemma loop_const_taken:
  assumes "replicate n (characters ! (k mod length characters)) \<in> stub ` set db"
  shows "generateUniqueStub_loop db b r n (\<lambda>i. k) = (None, \<lambda>i. k)"
proof (induction r)
  case 0
  show ?case by simp
next
  case (Suc r)
  have "find (\<lambda>c. c \<notin> set (findMany_stub_in db (replicate b (replicate n (characters ! (k mod length characters))))))
          (replicate b (replicate n (characters ! (k mod length characters)))) = None"
    using assms by (cases b) (auto simp: find_None_iff findMany_stub_in_def)
  then show ?case using Suc by (simp add: candidates_const)
qed

lemma loop_const_free:
  assumes "replicate n (characters ! (k mod length characters)) \<notin> stub ` set db"
  shows "generateUniqueStub_loop db (Suc b) (Suc r) n (\<lambda>i. k)
         = (Some (replicate n (characters ! (k mod length characters))), \<lambda>i. k)"
proof -
  have "findMany_stub_in db (replicate (Suc b) (replicate n (characters ! (k mod length characters)))) = []"
    using assms by (auto simp: findMany_stub_in_def filter_empty_conv image_iff)
  then show ?thesis by (simp add: candidates_const)
qed

lemma characters_0: "characters ! 0 = 0x41"
  by (simp add: characters_def js_def)

lemma js_A8: "js ''AAAAAAAA'' = replicate 8 0x41"
  by (simp add: js_def eval_nat_numeral)

lemma exhausted_example:
  "generateUniqueStub [\<lparr>content = js ''x'', readAt = None, stub = js ''AAAAAAAA''\<rparr>] 5 3 8 (\<lambda>i. 0)
     = (None, \<lambda>i. 0)"
  unfolding generateUniqueStub_def
  by (rule loop_const_taken) (simp add: characters_0 js_A8)

lemma fresh_example:
  "generateUniqueStub [] 5 3 8 (\<lambda>i. 0) = (Some (js ''AAAAAAAA''), \<lambda>i. 0)"
proof -
  have "generateUniqueStub_loop [] (Suc 4) (Suc 2) 8 (\<lambda>i. 0)
          = (Some (replicate 8 (characters ! (0 mod length characters))), \<lambda>i. 0)"
    by (rule loop_const_free) simp
  then show ?thesis
    by (simp add: generateUniqueStub_def characters_0 js_A8)
qed

lemma validateMessage_eq:
  "validateMessage db d =
     (if content_errors d = [] \<and> stub_errors db d = [] then Inr ()
      else Inl (ModelValidationError [(''content'', content_errors d), (''stub'', stub_errors db d)] ''Message''))"
  by (simp add: validateMessage_def)

lemma content_errors_iff:
  "(''Content is required'' \<in> set (content_errors d) \<longleftrightarrow> content d = [])"
  "(''Content is too long'' \<in> set (content_errors d) \<longleftrightarrow> 10000 < length (content d))"
  by (simp_all add: content_errors_def)

lemma stub_errors_iff:
  "(''Stub is required'' \<in> set (stub_errors db d) \<longleftrightarrow> stub d = [])"
  "(''Stub must be between 8 and 32 characters'' \<in> set (stub_errors db d)
      \<longleftrightarrow> length (stub d) < 8 \<or> 32 < length (stub d))"
  "(''Stub must be unique'' \<in> set (stub_errors db d) \<longleftrightarrow> findUnique db (stub d) \<noteq> None)"
  "(''Stub must be alphanumeric'' \<in> set (stub_errors db d) \<longleftrightarrow> (\<exists>c\<in>set (stub d). \<not> alphanumeric c))"
  by (simp_all add: stub_errors_def list_ex_iff)

lemma content_errors_Nil_iff: "content_errors d = [] \<longleftrightarrow> content d \<noteq> [] \<and> length (content d) \<le> 10000"
  by (auto simp: content_errors_def)

lemma stub_errors_Nil_iff:
  "stub_errors db d = [] \<longleftrightarrow>
     8 \<le> length (stub d) \<and> length (stub d) \<le> 32 \<and> findUnique db (stub d) = None
     \<and> (\<forall>c\<in>set (stub d). alphanumeric c)"
  by (auto simp: stub_errors_def list_ex_iff)

lemma createMessage_eq:
  "createMessage db g c =
     (let s = (case fst (generateUniqueStub db 5 3 8 g) of None \<Rightarrow> [] | Some s \<Rightarrow> s);
          g1 = snd (generateUniqueStub db 5 3 8 g);
          d = \<lparr>content = c, readAt = None, stub = s\<rparr> in
      if content_errors d = [] \<and> stub_errors db d = []
      then (Inr d, db @ [d], g1)
      else (Inl (ModelValidationError [(''content'', content_errors d), (''stub'', stub_errors db d)] ''Message''), db, g1))"
  by (auto simp: createMessage_def validateMessage_eq prisma_create_def Let_def stub_errors_Nil_iff
      split: prod.splits option.splits)

subsection \<open>Validation boundaries\<close>

text \<open>
  Claim C7. Validation accepts and rejects at the stated boundaries: content of length 0
  is rejected (``Content is required''); content of exactly 10000 code units is accepted,
  the stub being well-shaped and free; content of 10001 code units is rejected (``Content
  is too long''); a stub of length 7 or 33 is rejected; a stub with a character outside
  \<^verbatim>\<open>[a-zA-Z0-9]\<close> is rejected.
\<close>

theorem validateMessage_boundaries:
  "(length (content d) = 0 \<longrightarrow>
      (\<exists>cs ss. validateMessage db d = Inl (ModelValidationError [(''content'', cs), (''stub'', ss)] ''Message'')
         \<and> ''Content is required'' \<in> set cs))
   \<and> (length (content d) = 10000 \<and> 8 \<le> length (stub d) \<and> length (stub d) \<le> 32
        \<and> findUnique db (stub d) = None \<and> (\<forall>c\<in>set (stub d). alphanumeric c) \<longrightarrow>
      validateMessage db d = Inr ())
   \<and> (length (content d) = 10001 \<longrightarrow>
      (\<exists>cs ss. validateMessage db d = Inl (ModelValidationError [(''content'', cs), (''stub'', ss)] ''Message'')
         \<and> ''Content is too long'' \<in> set cs))
   \<and> (length (stub d) = 7 \<or> length (stub d) = 33 \<longrightarrow>
      (\<exists>cs ss. validateMessage db d = Inl (ModelValidationError [(''content'', cs), (''stub'', ss)] ''Message'')
         \<and> ''Stub must be between 8 and 32 characters'' \<in> set ss))
   \<and> ((\<exists>c\<in>set (stub d). \<not> alphanumeric c) \<longrightarrow>
      (\<exists>cs ss. validateMessage db d = Inl (ModelValidationError [(''content'', cs), (''stub'', ss)] ''Message'')
         \<and> ''Stub must be alphanumeric'' \<in> set ss))"
proof (intro conjI impI)
  assume "length (content d) = 0"
  then have "''Content is required'' \<in> set (content_errors d)"
    by (simp add: content_errors_iff)
  then show "\<exists>cs ss. validateMessage db d = Inl (ModelValidationError [(''content'', cs), (''stub'', ss)] ''Message'')
         \<and> ''Content is required'' \<in> set cs"
    by (auto simp: validateMessage_eq)
next
  assume "length (content d) = 10000 \<and> 8 \<le> length (stub d) \<and> length (stub d) \<le> 32
        \<and> findUnique db (stub d) = None \<and> (\<forall>c\<in>set (stub d). alphanumeric c)"
  then have "content_errors d = []" "stub_errors db d = []"
    by (auto simp: content_errors_Nil_iff stub_errors_Nil_iff)
  then show "validateMessage db d = Inr ()"
    by (simp add: validateMessage_eq)
next
  assume "length (content d) = 10001"
  then have "''Content is too long'' \<in> set (content_errors d)"
    by (simp add: content_errors_iff)
  then show "\<exists>cs ss. validateMessage db d = Inl (ModelValidationError [(''content'', cs), (''stub'', ss)] ''Message'')
         \<and> ''Content is too long'' \<in> set cs"
    by (auto simp: validateMessage_eq)
next
  assume "length (stub d) = 7 \<or> length (stub d) = 33"
  then have "''Stub must be between 8 and 32 characters'' \<in> set (stub_errors db d)"
    by (auto simp: stub_errors_iff)
  then show "\<exists>cs ss. validateMessage db d = Inl (ModelValidationError [(''content'', cs), (''stub'', ss)] ''Message'')
         \<and> ''Stub must be between 8 and 32 characters'' \<in> set ss"
    by (auto simp: validateMessage_eq)
next
  assume "\<exists>c\<in>set (stub d). \<not> alphanumeric c"
  then have "''Stub must be alphanumeric'' \<in> set (stub_errors db d)"
    by (simp add: stub_errors_iff)
  then show "\<exists>cs ss. validateMessage db d = Inl (ModelValidationError [(''content'', cs), (''stub'', ss)] ''Message'')
         \<and> ''Stub must be alphanumeric'' \<in> set ss"
    by (auto simp: validateMessage_eq)
qed

theorem validateMessage_boundaries_witness:
  "(\<exists>cs ss. validateMessage [] \<lparr>content = [], readAt = None, stub = js ''AAAAAAAA''\<rparr>
        = Inl (ModelValidationError [(''content'', cs), (''stub'', ss)] ''Message'')
      \<and> ''Content is required'' \<in> set cs)
   \<and> validateMessage [] \<lparr>content = replicate 10000 0x41, readAt = None, stub = js ''AAAAAAAA''\<rparr> = Inr ()
   \<and> (\<exists>cs ss. validateMessage [] \<lparr>content = replicate 10001 0x41, readAt = None, stub = js ''AAAAAAAA''\<rparr>
        = Inl (ModelValidationError [(''content'', cs), (''stub'', ss)] ''Message'')
      \<and> ''Content is too long'' \<in> set cs)
   \<and> (\<exists>cs ss. validateMessage [] \<lparr>content = js ''x'', readAt = None, stub = js ''AAAAAAA''\<rparr>
        = Inl (ModelValidationError [(''content'', cs), (''stub'', ss)] ''Message'')
      \<and> ''Stub must be between 8 and 32 characters'' \<in> set ss)
   \<and> (\<exists>cs ss. validateMessage [] \<lparr>content = js ''x'', readAt = None, stub = replicate 33 0x41\<rparr>
        = Inl (ModelValidationError [(''content'', cs), (''stub'', ss)] ''Message'')
      \<and> ''Stub must be between 8 and 32 characters'' \<in> set ss)
   \<and> (\<exists>cs ss. validateMessage [] \<lparr>content = js ''x'', readAt = None, stub = js ''AAAA-AAA''\<rparr>
        = Inl (ModelValidationError [(''content'', cs), (''stub'', ss)] ''Message'')
      \<and> ''Stub must be alphanumeric'' \<in> set ss)"
proof -
  have alnum_A: "alphanumeric 0x41"
    by (simp add: alphanumeric_def)
  have dash: "\<not> alphanumeric 0x2D"
    by (simp add: alphanumeric_def)
  have stub_ok: "8 \<le> length (js ''AAAAAAAA'') \<and> length (js ''AAAAAAAA'') \<le> 32
      \<and> findUnique [] (js ''AAAAAAAA'') = None \<and> (\<forall>c\<in>set (js ''AAAAAAAA''). alphanumeric c)"
    using alnum_A by (simp add: js_def findUnique_def)
  have bad: "\<exists>c\<in>set (js ''AAAA-AAA''). \<not> alphanumeric c"
    using dash by (simp add: js_def)
  show ?thesis
    using validateMessage_boundaries [of "\<lparr>content = [], readAt = None, stub = js ''AAAAAAAA''\<rparr>" "[]"]
      validateMessage_boundaries [of "\<lparr>content = replicate 10000 0x41, readAt = None, stub = js ''AAAAAAAA''\<rparr>" "[]"]
      validateMessage_boundaries [of "\<lparr>content = replicate 10001 0x41, readAt = None, stub = js ''AAAAAAAA''\<rparr>" "[]"]
      validateMessage_boundaries [of "\<lparr>content = js ''x'', readAt = None, stub = js ''AAAAAAA''\<rparr>" "[]"]
      validateMessage_boundaries [of "\<lparr>content = js ''x'', readAt = None, stub = replicate 33 0x41\<rparr>" "[]"]
      validateMessage_boundaries [of "\<lparr>content = js ''x'', readAt = None, stub = js ''AAAA-AAA''\<rparr>" "[]"]
      stub_ok bad
    by (simp add: js_def)
qed

subsection \<open>All violated rules are reported, and nothing is stored\<close>

text \<open>
  Claim C8. When the content or the stub of a creation breaks a rule, \<open>createMessage\<close>
  throws the \<^verbatim>\<open>ModelValidationError\<close> before anything is written (the table is unchanged),
  and the error lists under \<^verbatim>\<open>content\<close> and \<^verbatim>\<open>stub\<close> the message of every rule that is
  broken, and of no other: each message is present exactly when its rule is violated.
\<close>

theorem createMessage_lists_every_violation:
  fixes db :: table and g :: rng and c :: jsstring
  defines "s \<equiv> (case fst (generateUniqueStub db 5 3 8 g) of None \<Rightarrow> [] | Some s \<Rightarrow> s)"
  assumes "c = [] \<or> 10000 < length c \<or> s = [] \<or> length s < 8 \<or> 32 < length s
           \<or> findUnique db s \<noteq> None \<or> (\<exists>ch\<in>set s. \<not> alphanumeric ch)"
  shows "\<exists>cs ss g'.
           createMessage db g c
             = (Inl (ModelValidationError [(''content'', cs), (''stub'', ss)] ''Message''), db, g')
         \<and> (''Content is required'' \<in> set cs \<longleftrightarrow> c = [])
         \<and> (''Content is too long'' \<in> set cs \<longleftrightarrow> 10000 < length c)
         \<and> (''Stub is required'' \<in> set ss \<longleftrightarrow> s = [])
         \<and> (''Stub must be between 8 and 32 characters'' \<in> set ss \<longleftrightarrow> length s < 8 \<or> 32 < length s)
         \<and> (''Stub must be unique'' \<in> set ss \<longleftrightarrow> findUnique db s \<noteq> None)
         \<and> (''Stub must be alphanumeric'' \<in> set ss \<longleftrightarrow> (\<exists>ch\<in>set s. \<not> alphanumeric ch))"
proof -
  let ?d = "\<lparr>content = c, readAt = None, stub = s\<rparr>"
  have "\<not> (content_errors ?d = [] \<and> stub_errors db ?d = [])"
    using assms(2) by (auto simp: content_errors_Nil_iff stub_errors_Nil_iff)
  then have "createMessage db g c
      = (Inl (ModelValidationError [(''content'', content_errors ?d), (''stub'', stub_errors db ?d)] ''Message''),
         db, snd (generateUniqueStub db 5 3 8 g))"
    unfolding createMessage_eq s_def Let_def by simp
  moreover have "(''Content is required'' \<in> set (content_errors ?d) \<longleftrightarrow> c = [])"
    "(''Content is too long'' \<in> set (content_errors ?d) \<longleftrightarrow> 10000 < length c)"
    by (simp_all add: content_errors_iff)
  moreover have "(''Stub is required'' \<in> set (stub_errors db ?d) \<longleftrightarrow> s = [])"
    "(''Stub must be between 8 and 32 characters'' \<in> set (stub_errors db ?d) \<longleftrightarrow> length s < 8 \<or> 32 < length s)"
    "(''Stub must be unique'' \<in> set (stub_errors db ?d) \<longleftrightarrow> findUnique db s \<noteq> None)"
    "(''Stub must be alphanumeric'' \<in> set (stub_errors db ?d) \<longleftrightarrow> (\<exists>ch\<in>set s. \<not> alphanumeric ch))"
    by (simp_all add: stub_errors_iff)
  ultimately show ?thesis by blast
qed

theorem createMessage_lists_every_violation_witness:
  "\<exists>cs ss g'.
     createMessage [\<lparr>content = js ''x'', readAt = None, stub = js ''AAAAAAAA''\<rparr>] (\<lambda>i. 0)
         (replicate 10001 0x41)
       = (Inl (ModelValidationError [(''content'', cs), (''stub'', ss)] ''Message''),
          [\<lparr>content = js ''x'', readAt = None, stub = js ''AAAAAAAA''\<rparr>], g')
     \<and> ''Content is too long'' \<in> set cs
     \<and> ''Stub is required'' \<in> set ss
     \<and> ''Stub must be between 8 and 32 characters'' \<in> set ss
     \<and> ''Content is required'' \<notin> set cs
     \<and> ''Stub must be unique'' \<notin> set ss
     \<and> ''Stub must be alphanumeric'' \<notin> set ss"
  using createMessage_lists_every_violation
    [of "replicate 10001 0x41" "[\<lparr>content = js ''x'', readAt = None, stub = js ''AAAAAAAA''\<rparr>]" "\<lambda>i. 0"]
  by (simp add: exhausted_example findUnique_def js_Nil_iff) blast

subsection \<open>Exhausted allocation\<close>

text \<open>
  Claim C6, as the spec states it, fails: with every candidate of every batch taken,
  \<open>generateUniqueStub\<close> returns \<^verbatim>\<open>null\<close>, \<open>createMessage\<close> validates the empty stub, and the
  endpoint answers 422 with the validation errors of the \<^verbatim>\<open>stub\<close> field, not 500.
\<close>

theorem allocation_exhausted_counterexample:
  "generateUniqueStub [\<lparr>content = js ''x'', readAt = None, stub = js ''AAAAAAAA''\<rparr>] 5 3 8 (\<lambda>i. 0)
     = (None, \<lambda>i. 0)
   \<and> POST [\<lparr>content = js ''x'', readAt = None, stub = js ''AAAAAAAA''\<rparr>] (\<lambda>i. 0) (js ''hello'')
     = (\<lparr>status = 422,
          body = ErrorsBody [(''content'', []),
                   (''stub'', [''Stub is required'', ''Stub must be between 8 and 32 characters''])]\<rparr>,
        [\<lparr>content = js ''x'', readAt = None, stub = js ''AAAAAAAA''\<rparr>], \<lambda>i. 0)"
  by (simp add: exhausted_example POST_def createMessage_eq Let_def content_errors_def
      stub_errors_def findUnique_def js_Nil_iff length_js)

text \<open>
  Claim C6, amended. When the allocation is exhausted (\<open>generateUniqueStub\<close> returns
  \<^verbatim>\<open>null\<close>), \<open>createMessage\<close> throws a \<^verbatim>\<open>ModelValidationError\<close> whose \<^verbatim>\<open>stub\<close> messages
  include ``Stub is required'' and ``Stub must be between 8 and 32 characters'', nothing
  is stored, and the endpoint answers 422 with these errors.
\<close>

theorem allocation_exhausted_is_validation_error:
  assumes "fst (generateUniqueStub db 5 3 8 g) = None"
  shows "\<exists>cs ss g'.
           createMessage db g c
             = (Inl (ModelValidationError [(''content'', cs), (''stub'', ss)] ''Message''), db, g')
         \<and> ''Stub is required'' \<in> set ss
         \<and> ''Stub must be between 8 and 32 characters'' \<in> set ss
         \<and> POST db g c
             = (\<lparr>status = 422, body = ErrorsBody [(''content'', cs), (''stub'', ss)]\<rparr>, db, g')"
proof -
  let ?d = "\<lparr>content = c, readAt = None, stub = []\<rparr>"
  have "stub_errors db ?d \<noteq> []"
    by (simp add: stub_errors_Nil_iff)
  then have cm: "createMessage db g c
      = (Inl (ModelValidationError [(''content'', content_errors ?d), (''stub'', stub_errors db ?d)] ''Message''),
         db, snd (generateUniqueStub db 5 3 8 g))"
    using assms by (simp add: createMessage_eq Let_def)
  have "''Stub is required'' \<in> set (stub_errors db ?d)"
    "''Stub must be between 8 and 32 characters'' \<in> set (stub_errors db ?d)"
    by (simp_all add: stub_errors_iff)
  moreover have "POST db g c
      = (\<lparr>status = 422, body = ErrorsBody [(''content'', content_errors ?d), (''stub'', stub_errors db ?d)]\<rparr>,
         db, snd (generateUniqueStub db 5 3 8 g))"
    by (simp add: POST_def cm)
  ultimately show ?thesis using cm by blast
qed

theorem allocation_exhausted_is_validation_error_witness:
  "\<exists>cs ss g'.
     createMessage [\<lparr>content = js ''x'', readAt = None, stub = js ''AAAAAAAA''\<rparr>] (\<lambda>i. 0) (js ''hello'')
       = (Inl (ModelValidationError [(''content'', cs), (''stub'', ss)] ''Message''),
          [\<lparr>content = js ''x'', readAt = None, stub = js ''AAAAAAAA''\<rparr>], g')
     \<and> ''Stub is required'' \<in> set ss
     \<and> ''Stub must be between 8 and 32 characters'' \<in> set ss
     \<and> POST [\<lparr>content = js ''x'', readAt = None, stub = js ''AAAAAAAA''\<rparr>] (\<lambda>i. 0) (js ''hello'')
       = (\<lparr>status = 422, body = ErrorsBody [(''content'', cs), (''stub'', ss)]\<rparr>,
          [\<lparr>content = js ''x'', readAt = None, stub = js ''AAAAAAAA''\<rparr>], g')"
  using allocation_exhausted_is_validation_error
    [of "[\<lparr>content = js ''x'', readAt = None, stub = js ''AAAAAAAA''\<rparr>]" "\<lambda>i. 0" "js ''hello''"]
  by (simp add: exhausted_example)

subsection \<open>The creation endpoint stores the request text\<close>

text \<open>
  Claim C10. When the creation endpoint answers 200, the row it has added holds as its
  content the whole text of the request body, unchanged: for a client that sends the JSON
  text \<^verbatim>\<open>{"content":"x"}\<close> the stored content is that JSON text, wrapper included.
\<close>

theorem POST_stores_request_text:
  assumes "POST db g text = (r, db', g')" and "status r = 200"
  shows "\<exists>s. db' = db @ [\<lparr>content = text, readAt = None, stub = s\<rparr>] \<and> body r = StubBody s"
  using assms
  by (auto simp: POST_def createMessage_eq Let_def split: if_splits)

theorem POST_stores_request_text_witness:
  \<open>POST [] (\<lambda>i. 0) (js ''{"content":"x"}'')
     = (\<lparr>status = 200, body = StubBody (js ''AAAAAAAA'')\<rparr>,
        [\<lparr>content = js ''{"content":"x"}'', readAt = None, stub = js ''AAAAAAAA''\<rparr>], \<lambda>i. 0)\<close>
proof -
  have p: \<open>POST [] (\<lambda>i. 0) (js ''{"content":"x"}'')
     = (\<lparr>status = 200, body = StubBody (js ''AAAAAAAA'')\<rparr>,
        snd (POST [] (\<lambda>i. 0) (js ''{"content":"x"}'')))\<close>
    by (simp add: POST_def createMessage_eq Let_def fresh_example content_errors_def stub_errors_def
      findUnique_def alphanumeric_def js_def)
  obtain r db' g' where e: \<open>POST [] (\<lambda>i. 0) (js ''{"content":"x"}'') = (r, db', g')\<close>
    by (cases \<open>POST [] (\<lambda>i. 0) (js ''{"content":"x"}'')\<close>) auto
  with p have r: "r = \<lparr>status = 200, body = StubBody (js ''AAAAAAAA'')\<rparr>" by simp
  then have "status r = 200" by simp
  from POST_stores_request_text [OF e this] r
  have \<open>db' = [\<lparr>content = js ''{"content":"x"}'', readAt = None, stub = js ''AAAAAAAA''\<rparr>]\<close>
    by auto
  moreover have "g' = (\<lambda>i. 0)"
    using e by (simp add: POST_def createMessage_eq Let_def fresh_example content_errors_def stub_errors_def
      findUnique_def alphanumeric_def js_def)
  ultimately show ?thesis using e r by simp
qed

subsection \<open>The consume transition\<close>

lemma findUnique_stub: "findUnique db s = Some m \<Longrightarrow> stub m = s"
  by (auto simp: findUnique_def find_Some_iff)

lemma findUnique_update_row:
  "findUnique db s = Some m \<Longrightarrow> stub m' = s \<Longrightarrow> findUnique (update_row db s m') s = Some m'"
  by (induction db) (auto simp: findUnique_def split: if_splits)

lemma call_steps_sequential:
  "(case call_step s now db Finding of
      (Returned found r, db1) \<Rightarrow> (r, db1)
    | (c1, db1) \<Rightarrow> (case call_step s now' db1 c1 of (Returned found r, db2) \<Rightarrow> (r, db2) | (c2, db2) \<Rightarrow> (Inr None, db2)))
   = markMessageAsRead db s now"
  by (auto simp: markMessageAsRead_def split: option.splits sum.splits prod.splits)

text \<open>
  Calls that do not overlap: a call on an unread record writes the sentinel and the read
  date in one update and returns the updated record; after it the record is found
  consumed, and a later call returns \<^verbatim>\<open>null\<close> and leaves the table as it is.
\<close>

theorem markMessageAsRead_consumes_once:
  fixes now later :: date
  assumes "findUnique db s = Some m" and "readAt m = None"
  defines "m' \<equiv> m\<lparr>content := js ''DEADBEEF'', readAt := Some now\<rparr>"
  shows "markMessageAsRead db s now = (Inr (Some m'), update_row db s m')
         \<and> findUnique (update_row db s m') s = Some m'
         \<and> markMessageAsRead (update_row db s m') s later = (Inr None, update_row db s m')"
proof -
  have st: "stub m' = s" using findUnique_stub [OF assms(1)] by (simp add: m'_def)
  have f: "findUnique (update_row db s m') s = Some m'"
    using assms(1) st by (rule findUnique_update_row)
  have "markMessageAsRead db s now = (Inr (Some m'), update_row db s m')"
    using assms(1,2) by (simp add: markMessageAsRead_def prisma_update_def Let_def m'_def)
  moreover have "markMessageAsRead (update_row db s m') s later = (Inr None, update_row db s m')"
    using f by (simp add: markMessageAsRead_def m'_def)
  ultimately show ?thesis using f by simp
qed

theorem markMessageAsRead_consumes_once_witness:
  "markMessageAsRead [\<lparr>content = js ''secret'', readAt = None, stub = js ''AAAAAAAA''\<rparr>]
       (js ''AAAAAAAA'') 10
     = (Inr (Some \<lparr>content = js ''DEADBEEF'', readAt = Some 10, stub = js ''AAAAAAAA''\<rparr>),
        [\<lparr>content = js ''DEADBEEF'', readAt = Some 10, stub = js ''AAAAAAAA''\<rparr>])
   \<and> markMessageAsRead [\<lparr>content = js ''DEADBEEF'', readAt = Some 10, stub = js ''AAAAAAAA''\<rparr>]
       (js ''AAAAAAAA'') 11
     = (Inr None, [\<lparr>content = js ''DEADBEEF'', readAt = Some 10, stub = js ''AAAAAAAA''\<rparr>])"
proof -
  have f: "findUnique [\<lparr>content = js ''secret'', readAt = None, stub = js ''AAAAAAAA''\<rparr>] (js ''AAAAAAAA'')
      = Some \<lparr>content = js ''secret'', readAt = None, stub = js ''AAAAAAAA''\<rparr>"
    by (simp add: findUnique_def)
  show ?thesis
    using markMessageAsRead_consumes_once [OF f, of 10 11] by simp
qed

text \<open>
  Claim C2 asks that of the calls of \<open>markMessageAsRead\<close> that overlap on an unread record
  exactly one finds \<^verbatim>\<open>readAt\<close> null and consumes the record. The code reads and writes in
  two separate queries. On the schedule below the store answers the \<^verbatim>\<open>findUnique\<close> of both
  calls before the \<^verbatim>\<open>update\<close> of either: both calls find the unread record with its
  original content, both update it, and both return the updated record.
\<close>

theorem race_both_calls_consume:
  "run (js ''AAAAAAAA'') [(0, 10), (1, 11), (0, 12), (1, 13)]
     ([\<lparr>content = js ''secret'', readAt = None, stub = js ''AAAAAAAA''\<rparr>], [Finding, Finding])
   = ([\<lparr>content = js ''DEADBEEF'', readAt = Some 11, stub = js ''AAAAAAAA''\<rparr>],
      [Returned (Some \<lparr>content = js ''secret'', readAt = None, stub = js ''AAAAAAAA''\<rparr>)
         (Inr (Some \<lparr>content = js ''DEADBEEF'', readAt = Some 10, stub = js ''AAAAAAAA''\<rparr>)),
       Returned (Some \<lparr>content = js ''secret'', readAt = None, stub = js ''AAAAAAAA''\<rparr>)
         (Inr (Some \<lparr>content = js ''DEADBEEF'', readAt = Some 11, stub = js ''AAAAAAAA''\<rparr>))])"
  by (simp add: findUnique_def prisma_update_def Let_def)

text \<open>
  Claim C3 asks that a consumed record is never changed again by \<open>markMessageAsRead\<close>. On
  the same schedule the record is consumed once the first call has written (\<^verbatim>\<open>readAt\<close> is
  10); the write of the second call then overwrites the content a second time and moves
  \<^verbatim>\<open>readAt\<close> to 11.
\<close>

theorem race_readAt_changes_after_consumption:
  "fst (run (js ''AAAAAAAA'') [(0, 10), (1, 11), (0, 12)]
     ([\<lparr>content = js ''secret'', readAt = None, stub = js ''AAAAAAAA''\<rparr>], [Finding, Finding]))
   = [\<lparr>content = js ''DEADBEEF'', readAt = Some 10, stub = js ''AAAAAAAA''\<rparr>]
   \<and> fst (run (js ''AAAAAAAA'') [(0, 10), (1, 11), (0, 12), (1, 13)]
     ([\<lparr>content = js ''secret'', readAt = None, stub = js ''AAAAAAAA''\<rparr>], [Finding, Finding]))
   = [\<lparr>content = js ''DEADBEEF'', readAt = Some 11, stub = js ''AAAAAAAA''\<rparr>]"
  by (simp add: findUnique_def prisma_update_def Let_def)

subsection \<open>Base64\<close>

lemma b64_value_char: "v < 64 \<Longrightarrow> b64_value (b64_char v) = Some v"
  by (auto simp: b64_value_def b64_char_def)

lemma b64_char_not_ws: "v < 64 \<Longrightarrow> \<not> ascii_whitespace (b64_char v)"
  by (auto simp: ascii_whitespace_def b64_char_def)

lemma b64_char_not_pad: "v < 64 \<Longrightarrow> b64_char v \<noteq> 0x3D"
  by (auto simp: b64_char_def)

lemma sextets_bound: "\<forall>b\<in>set bs. b < 256 \<Longrightarrow> \<forall>v\<in>set (b64_sextets bs). v < 64"
  by (induction bs rule: b64_sextets.induct) auto

lemma octets_sextets: "\<forall>b\<in>set bs. b < 256 \<Longrightarrow> b64_octets (b64_sextets bs) = bs"
  by (induction bs rule: b64_sextets.induct) auto

lemma length_sextets: "length (b64_sextets bs) = (4 * length bs + 2) div 3"
  by (induction bs rule: b64_sextets.induct) simp_all

lemma length_encode_mod4: "((4 * n + 2) div 3 + (3 - n mod 3) mod 3) mod 4 = (0::nat)"
proof -
  obtain q r where n: "n = 3 * q + r" and r: "r < 3"
    by (metis mod_less_divisor mult_div_mod_eq zero_less_numeral)
  have r3: "r = 0 \<or> r = 1 \<or> r = 2" using r by arith
  have d: "(4 * n + 2) div 3 = 4 * q + (4 * r + 2) div 3"
    using n by simp
  have m: "n mod 3 = r" using n r by simp
  have "((4 * r + 2) div 3 + (3 - r) mod 3) mod 4 = 0"
    using r3 by auto
  moreover have "(4 * q + (4 * r + 2) div 3 + (3 - r) mod 3) mod 4
      = ((4 * r + 2) div 3 + (3 - r) mod 3) mod 4"
    by (simp add: add.assoc)
  ultimately show ?thesis using d m by simp
qed

lemma length_sextets_mod4: "(4 * n + 2) div 3 mod 4 \<noteq> (1::nat)"
proof -
  obtain q r where n: "n = 3 * q + r" and r: "r < 3"
    by (metis mod_less_divisor mult_div_mod_eq zero_less_numeral)
  have r3: "r = 0 \<or> r = 1 \<or> r = 2" using r by arith
  have d: "(4 * n + 2) div 3 = 4 * q + (4 * r + 2) div 3"
    using n by simp
  have "(4 * r + 2) div 3 mod 4 \<noteq> 1"
    using r3 by auto
  moreover have "(4 * q + (4 * r + 2) div 3) mod 4 = (4 * r + 2) div 3 mod 4"
    by simp
  ultimately show ?thesis using d by simp
qed

lemma those_value_char:
  "\<forall>v\<in>set vs. v < 64 \<Longrightarrow> those (map b64_value (map b64_char vs)) = Some vs"
  by (induction vs) (simp_all add: b64_value_char)

lemma strip_padding_body:
  assumes "chars = [] \<or> last chars \<noteq> 0x3D" and "k \<le> 2"
    and "(length chars + k) mod 4 = 0"
  shows "strip_padding (chars @ replicate k 0x3D) = chars"
proof -
  consider "k = 0" | "k = 1" | "k = 2" using assms(2) by arith
  then show ?thesis
  proof cases
    case 1
    then show ?thesis using assms(1,3) by (auto simp: strip_padding_def)
  next
    case 2
    then have "chars \<noteq> []" using assms(3) by auto
    then show ?thesis using 2 assms(1,3) by (simp add: strip_padding_def)
  next
    case 3
    then have r: "replicate k (0x3D::nat) = [0x3D, 0x3D]" by (simp add: numeral_2_eq_2)
    have "butlast (chars @ [0x3D, 0x3D::nat]) = chars @ [0x3D]"
      by (simp add: butlast_append)
    then show ?thesis using assms(3) 3 unfolding r by (simp add: strip_padding_def)
  qed
qed

lemma pad_le2: "(3 - n mod 3) mod 3 \<le> (2::nat)"
proof -
  have "(3 - n mod 3) mod 3 < 3" by (rule mod_less_divisor) simp
  then show ?thesis by simp
qed

lemma encode_no_ws: 
  assumes "\<forall>v\<in>set (b64_sextets bs). v < 64"
  shows "filter (\<lambda>c. \<not> ascii_whitespace c) (b64_encode bs) = b64_encode bs"
proof -
  have "\<not> ascii_whitespace 0x3D" by (simp add: ascii_whitespace_def)
  then show ?thesis
    using assms by (auto simp: b64_encode_def b64_char_not_ws filter_id_conv)
qed

lemma b64_decode_encode:
  assumes "\<forall>b\<in>set bs. b < 256"
  shows "b64_decode (b64_encode bs) = Some bs"
proof -
  let ?vs = "b64_sextets bs"
  let ?body = "map b64_char ?vs"
  let ?k = "(3 - length bs mod 3) mod 3"
  have vs: "\<forall>v\<in>set ?vs. v < 64" using assms by (rule sextets_bound)
  have nows: "filter (\<lambda>c. \<not> ascii_whitespace c) (b64_encode bs) = b64_encode bs"
    using vs by (rule encode_no_ws)
  have last: "?body = [] \<or> last ?body \<noteq> 0x3D"
  proof (cases "?vs = []")
    case True
    then show ?thesis by simp
  next
    case False
    then have "last ?vs \<in> set ?vs" by simp
    with vs have "last ?vs < 64" by blast
    then show ?thesis using False by (simp add: last_map b64_char_not_pad)
  qed
  have "(length ?body + ?k) mod 4 = 0"
    by (simp only: length_map length_sextets length_encode_mod4)
  with last have strip: "strip_padding (?body @ replicate ?k 0x3D) = ?body"
    using pad_le2 by (intro strip_padding_body)
  have len: "length ?body mod 4 \<noteq> 1"
    using length_sextets_mod4 [of "length bs"] by (simp only: length_map length_sextets) simp
  have "b64_decode (b64_encode bs)
      = (let d = strip_padding (b64_encode bs) in
         if length d mod 4 = 1 then None
         else (case those (map b64_value d) of None \<Rightarrow> None | Some vs \<Rightarrow> Some (b64_octets vs)))"
    by (simp add: b64_decode_def nows)
  also have "\<dots> = Some (b64_octets ?vs)"
    using len strip by (simp add: b64_encode_def those_value_char [OF vs] del: map_map)
  finally show ?thesis by (simp add: octets_sextets [OF assms])
qed

subsection \<open>UTF-8 and UTF-16\<close>

lemma decode_1:
  assumes "cp \<le> 0x7F"
  shows "utf8_decode decoder_reset (utf8_bytes cp @ rest) = cp # utf8_decode decoder_reset rest"
  using assms by (simp add: utf8_bytes_def utf8_handler_def decoder_reset_def)

lemma mod_offset: "a < m \<Longrightarrow> (k * m + a) mod m = (a::nat)"
  by simp

lemma decode_2:
  assumes "0x7F < cp" "cp \<le> 0x7FF"
  shows "utf8_decode decoder_reset (utf8_bytes cp @ rest) = cp # utf8_decode decoder_reset rest"
proof -
  define a where "a = cp div 64"
  define c where "c = cp mod 64"
  have cp: "cp = a * 64 + c" and c: "c < 64" by (simp_all add: a_def c_def)
  have a: "2 \<le> a" "a \<le> 31" using assms cp c by linarith+
  have bytes: "utf8_bytes cp = [0xC0 + a, 0x80 + c]"
    using assms by (simp add: utf8_bytes_def a_def c_def)
  have m1: "(0xC0 + a) mod 32 = a" using a mod_offset [of a 32 6] by simp
  have m2: "(0x80 + c) mod 64 = c" using c mod_offset [of c 64 2] by simp
  show ?thesis
    unfolding bytes using a c m1 m2
    by (simp add: utf8_handler_def decoder_reset_def cp)
qed

lemma decode_3:
  assumes "0x7FF < cp" "cp \<le> 0xFFFF" "\<not> (0xD800 \<le> cp \<and> cp \<le> 0xDFFF)"
  shows "utf8_decode decoder_reset (utf8_bytes cp @ rest) = cp # utf8_decode decoder_reset rest"
proof -
  define a where "a = cp div 64 div 64"
  define b where "b = cp div 64 mod 64"
  define c where "c = cp mod 64"
  have d: "cp div 64 = a * 64 + b" and b: "b < 64" by (simp_all add: a_def b_def)
  have cp0: "cp = cp div 64 * 64 + c" and c: "c < 64" by (simp_all add: c_def)
  have cp: "cp = (a * 64 + b) * 64 + c" using cp0 d by simp
  have a4096: "cp div 4096 = a"
    using div_mult2_eq [of cp 64 64] by (simp add: a_def)
  have cp': "cp = 4096 * a + 64 * b + c" using cp by simp
  have a: "a \<le> 15" using assms(2) cp' by linarith
  have lo: "a = 0 \<Longrightarrow> 32 \<le> b" using assms(1) cp' c by linarith
  have hi: "a = 13 \<Longrightarrow> b < 32" using assms(3) cp' c b by linarith
  have bytes: "utf8_bytes cp = [0xE0 + a, 0x80 + b, 0x80 + c]"
    using assms by (simp add: utf8_bytes_def a4096 b_def c_def)
  have m1: "(0xE0 + a) mod 16 = a" using a mod_offset [of a 16 14] by simp
  have m2: "(0x80 + b) mod 64 = b" using b mod_offset [of b 64 2] by simp
  have m3: "(0x80 + c) mod 64 = c" using c mod_offset [of c 64 2] by simp
  show ?thesis
    unfolding bytes using a b c lo hi m1 m2 m3
    by (auto simp add: utf8_handler_def decoder_reset_def cp)
qed

lemma decode_4:
  assumes "0xFFFF < cp" "cp \<le> 0x10FFFF"
  shows "utf8_decode decoder_reset (utf8_bytes cp @ rest) = cp # utf8_decode decoder_reset rest"
proof -
  define a where "a = cp div 64 div 64 div 64"
  define b where "b = cp div 64 div 64 mod 64"
  define b' where "b' = cp div 64 mod 64"
  define c where "c = cp mod 64"
  have e: "cp div 64 div 64 = a * 64 + b" and b: "b < 64" by (simp_all add: a_def b_def)
  have d: "cp div 64 = cp div 64 div 64 * 64 + b'" and b': "b' < 64" by (simp_all add: b'_def)
  have cp0: "cp = cp div 64 * 64 + c" and c: "c < 64" by (simp_all add: c_def)
  have cp: "cp = ((a * 64 + b) * 64 + b') * 64 + c" using cp0 d e by simp
  have a4096: "cp div 4096 = cp div 64 div 64"
    using div_mult2_eq [of cp 64 64] by simp
  have a262144: "cp div 262144 = a"
    using div_mult2_eq [of cp 4096 64] a4096 by (simp add: a_def)
  have cp': "cp = 262144 * a + 4096 * b + 64 * b' + c" using cp by simp
  have a: "a \<le> 4" using assms(2) cp' by linarith
  have lo: "a = 0 \<Longrightarrow> 16 \<le> b" using assms(1) cp' c b' by linarith
  have hi: "a = 4 \<Longrightarrow> b < 16" using assms(2) cp' by linarith
  have bytes: "utf8_bytes cp = [0xF0 + a, 0x80 + b, 0x80 + b', 0x80 + c]"
    using assms by (simp add: utf8_bytes_def a262144 a4096 b_def b'_def c_def)
  have m1: "(0xF0 + a) mod 8 = a" using a mod_offset [of a 8 30] by simp
  have m2: "(0x80 + b) mod 64 = b" using b mod_offset [of b 64 2] by simp
  have m3: "(0x80 + b') mod 64 = b'" using b' mod_offset [of b' 64 2] by simp
  have m4: "(0x80 + c) mod 64 = c" using c mod_offset [of c 64 2] by simp
  show ?thesis
    unfolding bytes using a b b' c lo hi m1 m2 m3 m4
    by (auto simp add: utf8_handler_def decoder_reset_def cp)
qed

lemma decode_scalar:
  assumes "scalar cp"
  shows "utf8_decode decoder_reset (utf8_bytes cp @ rest) = cp # utf8_decode decoder_reset rest"
proof -
  consider "cp \<le> 0x7F" | "0x7F < cp" "cp \<le> 0x7FF" | "0x7FF < cp" "cp \<le> 0xFFFF"
    | "0xFFFF < cp" by linarith
  then show ?thesis
  proof cases
    case 1 then show ?thesis by (rule decode_1)
  next
    case 2 then show ?thesis by (rule decode_2)
  next
    case 3 then show ?thesis using assms by (intro decode_3) (simp_all add: scalar_def)
  next
    case 4 then show ?thesis using assms by (intro decode_4) (simp_all add: scalar_def)
  qed
qed

lemma decode_encode_scalars:
  "\<forall>cp\<in>set cps. scalar cp \<Longrightarrow>
     utf8_decode decoder_reset (concat (map utf8_bytes cps)) = cps"
proof (induction cps)
  case Nil
  show ?case by (simp add: decoder_reset_def)
next
  case (Cons cp cps)
  then show ?case by (simp add: decode_scalar)
qed

lemma units_of_pair:
  assumes "lead_surrogate u" "trail_surrogate v"
  shows "utf16_units (0x10000 + (u - 0xD800) * 0x400 + (v - 0xDC00)) = [u, v]"
proof -
  define h where "h = u - 0xD800"
  define l where "l = v - 0xDC00"
  have u: "u = 0xD800 + h" and v: "v = 0xDC00 + l" and l: "l < 0x400"
    using assms unfolding h_def l_def lead_surrogate_def trail_surrogate_def by linarith+
  have "(h * 0x400 + l) div 0x400 = h" "(h * 0x400 + l) mod 0x400 = l"
    using l by simp_all
  then show ?thesis
    by (simp add: utf16_units_def u v)
qed

lemma scalar_of_pair:
  assumes "lead_surrogate u" "trail_surrogate v"
  shows "scalar (0x10000 + (u - 0xD800) * 0x400 + (v - 0xDC00))"
proof -
  define h where "h = u - 0xD800"
  define l where "l = v - 0xDC00"
  have "h < 0x400" "l < 0x400"
    using assms unfolding h_def l_def lead_surrogate_def trail_surrogate_def by linarith+
  then have "0x10000 + h * 0x400 + l \<le> 0x10FFFF" "0xDFFF < 0x10000 + h * 0x400 + l"
    by linarith+
  then show ?thesis
    unfolding scalar_def h_def l_def by linarith
qed

lemma paired_units:
  "paired us \<Longrightarrow> \<forall>u\<in>set us. u < 65536 \<Longrightarrow> concat (map utf16_units (scalar_values us)) = us"
proof (induction us rule: scalar_values.induct)
  case 1
  show ?case by simp
next
  case (2 u)
  then show ?case
    by (auto simp: utf16_units_def lead_surrogate_def trail_surrogate_def)
next
  case (3 u v us)
  show ?case
  proof (cases "lead_surrogate u")
    case True
    with "3.prems" have t: "trail_surrogate v" and p: "paired us" by simp_all
    from "3.IH"(1) [OF True t p] "3.prems"(2) show ?thesis
      using True t by (simp add: units_of_pair)
  next
    case False
    with "3.prems" have nt: "\<not> trail_surrogate u" and p: "paired (v # us)" by simp_all
    have "utf16_units u = [u]"
      using "3.prems"(2) by (simp add: utf16_units_def)
    with "3.IH"(4) [OF False nt p] "3.prems"(2) show ?thesis
      using False nt by simp
  qed
qed

subsection \<open>Bytes and code units\<close>

lemma unat_of_nat_byte: "n < 256 \<Longrightarrow> unat (of_nat n :: byte) = n"
  by (simp add: unat_of_nat)

lemma unat_of_nat_unit: "n < 65536 \<Longrightarrow> unat (of_nat n :: code_unit) = n"
  by (simp add: unat_of_nat)

lemma unat_byte_less: "unat (b :: byte) < 256"
  using unsigned_less [of b, where ?'a = nat] by simp

lemma unat_unit_less: "unat (c :: code_unit) < 65536"
  using unsigned_less [of c, where ?'a = nat] by simp

lemma unat_ucast_byte: "unat (ucast (b :: byte) :: code_unit) = unat b"
proof -
  have "unat b < 65536" using unat_byte_less [of b] by simp
  then have "unat (of_nat (unat b) :: code_unit) = unat b" by (rule unat_of_nat_unit)
  then show ?thesis by simp
qed

lemma ucast_of_nat_unit: "n < 65536 \<Longrightarrow> (ucast (of_nat n :: code_unit) :: byte) = of_nat n"
proof -
  assume "n < 65536"
  then have "unat (of_nat n :: code_unit) = n" by (rule unat_of_nat_unit)
  then have "(of_nat (unat (of_nat n :: code_unit)) :: byte) = of_nat n" by simp
  then show ?thesis by simp
qed

lemma map_unat_of_nat_byte:
  "\<forall>x\<in>set xs. x < 256 \<Longrightarrow> map unat (map of_nat xs :: byte list) = xs"
  by (induction xs) (simp_all add: unat_of_nat_byte)

lemma map_unat_of_nat_unit:
  "\<forall>x\<in>set xs. x < 65536 \<Longrightarrow> map unat (map of_nat xs :: code_unit list) = xs"
  by (induction xs) (simp_all add: unat_of_nat_unit)

lemma map_of_nat_unat_byte: "map of_nat (map unat bs) = (bs :: byte list)"
  by (induction bs) simp_all

lemma map_of_nat_unat_unit: "map of_nat (map unat s) = (s :: jsstring)"
  by (induction s) simp_all

lemma b64_char_bound: "b64_char v < 65536"
  by (auto simp: b64_char_def)

lemma encode_chars_bound: "\<forall>c\<in>set (b64_encode xs). c < 65536"
  by (auto simp: b64_encode_def b64_char_bound)

lemma map_unat_ucast_byte: "map unat (map ucast (bs :: byte list) :: jsstring) = map unat bs"
  by (induction bs) (simp_all add: unat_ucast_byte)

lemma map_ucast_of_nat:
  "\<forall>x\<in>set xs. x < 65536 \<Longrightarrow> map ucast (map of_nat xs :: jsstring) = (map of_nat xs :: byte list)"
  by (induction xs) (simp_all add: ucast_of_nat_unit)

lemma btoa_bytes:
  "btoa (map ucast (bs :: byte list)) = Inr (map of_nat (b64_encode (map unat bs)))"
proof -
  have "\<not> list_ex (\<lambda>c. 0xFF < unat c) (map ucast bs :: jsstring)"
  proof -
    have "\<And>b :: byte. \<not> 0xFF < unat (ucast b :: code_unit)"
      using unat_byte_less by (simp add: unat_ucast_byte not_less less_Suc_eq_le [symmetric])
    then show ?thesis by (simp add: list_ex_iff)
  qed
  then show ?thesis by (simp add: btoa_def map_unat_ucast_byte del: map_map)
qed

lemma base64_roundtrip:
  "base64ToArrayBuffer (map of_nat (b64_encode (map unat bs))) = Inr (bs :: byte list)"
proof -
  let ?xs = "map unat bs"
  have bound: "\<forall>b\<in>set ?xs. b < 256" using unat_byte_less by auto
  then have bound': "\<forall>b\<in>set ?xs. b < 65536" by auto
  have "map unat (map of_nat (b64_encode ?xs) :: jsstring) = b64_encode ?xs"
    using encode_chars_bound by (rule map_unat_of_nat_unit)
  then have "atob (map of_nat (b64_encode ?xs)) = Inr (map of_nat ?xs)"
    by (simp add: atob_def b64_decode_encode [OF bound])
  moreover have "map ucast (map of_nat ?xs :: jsstring) = (map of_nat ?xs :: byte list)"
    using bound' by (rule map_ucast_of_nat)
  ultimately show ?thesis
    by (simp add: base64ToArrayBuffer_def map_of_nat_unat_byte del: map_map)
qed

lemma arrayBufferToBase64_ok:
  "length bs \<le> max_arguments P \<Longrightarrow>
     arrayBufferToBase64 P bs = Inr (map of_nat (b64_encode (map unat bs)))"
  by (simp add: arrayBufferToBase64_def btoa_bytes)

lemma arrayBufferToBase64_Inr:
  "arrayBufferToBase64 P bs = Inr b \<Longrightarrow> b = map of_nat (b64_encode (map unat bs))"
  by (auto simp: arrayBufferToBase64_def btoa_bytes split: if_splits)

subsection \<open>Encoding and decoding text\<close>

lemma utf8_bytes_bound:
  assumes "scalar cp"
  shows "\<forall>b\<in>set (utf8_bytes cp). b < 256"
proof -
  have le: "cp < 0x110000" using assms by (simp add: scalar_def)
  have m: "\<And>x. x mod 64 < (64::nat)" by simp
  have m': "\<And>x. 0x80 + x mod 64 < (256::nat)"
  proof -
    fix x :: nat
    have "x mod 64 < 64" by simp
    then show "0x80 + x mod 64 < 256" by linarith
  qed
  have d2: "cp \<le> 0x7FF \<Longrightarrow> 0xC0 + cp div 64 < 256"
  proof -
    assume "cp \<le> 0x7FF"
    then have "cp < 32 * 64" by simp
    then have "cp div 64 < 32" by (rule less_mult_imp_div_less)
    then show ?thesis by linarith
  qed
  have d3: "cp \<le> 0xFFFF \<Longrightarrow> 0xE0 + cp div 4096 < 256"
  proof -
    assume "cp \<le> 0xFFFF"
    then have "cp < 16 * 4096" by simp
    then have "cp div 4096 < 16" by (rule less_mult_imp_div_less)
    then show ?thesis by linarith
  qed
  have d4: "0xF0 + cp div 262144 < 256"
  proof -
    have "cp < 5 * 262144" using le by simp
    then have "cp div 262144 < 5" by (rule less_mult_imp_div_less)
    then show ?thesis by linarith
  qed
  show ?thesis
    using d2 d3 d4 m' by (simp add: utf8_bytes_def)
qed

lemma utf8_concat_bound:
  "\<forall>cp\<in>set cps. scalar cp \<Longrightarrow> \<forall>b\<in>set (concat (map utf8_bytes cps)). b < 256"
  using utf8_bytes_bound by auto

lemma strip_bom_paired:
  assumes "paired us" and "take 1 us \<noteq> [0xFEFF]"
  shows "strip_bom (scalar_values us) = scalar_values us"
proof (cases us)
  case Nil
  then show ?thesis by (simp add: strip_bom_def)
next
  case (Cons u rest)
  note c1 = Cons
  have u: "u \<noteq> 0xFEFF" using assms(2) c1 by simp
  show ?thesis
  proof (cases rest)
    case Nil
    then show ?thesis using assms(1) c1 u by (simp add: strip_bom_def)
  next
    case (Cons v rest')
    show ?thesis
    proof (cases "lead_surrogate u")
      case True
      then have "trail_surrogate v" using assms(1) c1 Cons by simp
      moreover have "0x10000 + (u - 0xD800) * 0x400 + (v - 0xDC00) \<noteq> 0xFEFF"
        by linarith
      ultimately show ?thesis using True c1 Cons by (simp add: strip_bom_def)
    next
      case False
      then have "\<not> trail_surrogate u" using assms(1) c1 Cons by simp
      then show ?thesis using False c1 Cons u by (simp add: strip_bom_def)
    qed
  qed
qed

lemma scalar_values_scalar:
  "\<forall>u\<in>set us. u < 65536 \<Longrightarrow> \<forall>cp\<in>set (scalar_values us). scalar cp"
proof (induction us rule: scalar_values.induct)
  case 1
  show ?case by simp
next
  case (2 u)
  then show ?case
    by (auto simp: scalar_def lead_surrogate_def trail_surrogate_def)
next
  case (3 u v us)
  have fffd: "scalar 0xFFFD" by (simp add: scalar_def)
  show ?case
  proof (cases "lead_surrogate u")
    case True
    note lead = True
    show ?thesis
    proof (cases "trail_surrogate v")
      case True
      from "3.IH"(1) [OF lead True] "3.prems" show ?thesis
        using lead True by (simp add: scalar_of_pair)
    next
      case False
      from "3.IH"(2) [OF lead False] "3.prems" show ?thesis
        using lead False fffd by simp
    qed
  next
    case False
    note nolead = False
    show ?thesis
    proof (cases "trail_surrogate u")
      case True
      from "3.IH"(3) [OF nolead True] "3.prems" show ?thesis
        using nolead True fffd by simp
    next
      case False
      have "scalar u"
        using nolead False "3.prems" by (auto simp: scalar_def lead_surrogate_def trail_surrogate_def)
      with "3.IH"(4) [OF nolead False] "3.prems" show ?thesis
        using nolead False by simp
    qed
  qed
qed

lemma text_decode_encode:
  "TextDecoder_decode (TextEncoder_encode s)
     = map of_nat (concat (map utf16_units (strip_bom (scalar_values (map unat s)))))"
proof -
  let ?cps = "scalar_values (map unat s)"
  have bound: "\<forall>u\<in>set (map unat s). u < 65536" using unat_unit_less by auto
  have sc: "\<forall>cp\<in>set ?cps. scalar cp" using bound by (rule scalar_values_scalar)
  have b: "map unat (TextEncoder_encode s) = concat (map utf8_bytes ?cps)"
    unfolding TextEncoder_encode_def using utf8_concat_bound [OF sc] by (rule map_unat_of_nat_byte)
  have dec: "utf8_decode decoder_reset (concat (map utf8_bytes ?cps)) = ?cps"
    using sc by (rule decode_encode_scalars)
  show ?thesis
    unfolding TextDecoder_decode_def b dec by (rule refl)
qed

lemma text_roundtrip:
  assumes "well_formed s" and "take 1 s \<noteq> [0xFEFF]"
  shows "TextDecoder_decode (TextEncoder_encode s) = s"
proof -
  let ?us = "map unat s"
  let ?cps = "scalar_values ?us"
  have p: "paired ?us" using assms(1) by (simp add: well_formed_def)
  have bound: "\<forall>u\<in>set ?us. u < 65536" using unat_unit_less by auto
  have "take 1 ?us \<noteq> [0xFEFF]"
  proof (cases s)
    case Nil
    then show ?thesis by simp
  next
    case (Cons c cs)
    then have "c \<noteq> 0xFEFF" using assms(2) by simp
    then have "unat c \<noteq> unat (0xFEFF :: code_unit)" by (simp add: word_unat_eq_iff)
    then show ?thesis using Cons by simp
  qed
  with p have bom: "strip_bom ?cps = ?cps" by (rule strip_bom_paired)
  have units: "concat (map utf16_units ?cps) = ?us" using p bound by (rule paired_units)
  show ?thesis
    unfolding text_decode_encode bom units by (rule map_of_nat_unat_unit)
qed

lemma bom_example:
  "TextDecoder_decode (TextEncoder_encode [0xFEFF, 0x68, 0x69]) = [0x68, 0x69]"
  unfolding text_decode_encode
  by (simp add: lead_surrogate_def trail_surrogate_def strip_bom_def utf16_units_def)

lemma surrogate_example:
  "TextDecoder_decode (TextEncoder_encode [0xD800]) = [0xFFFD]"
  unfolding text_decode_encode
  by (simp add: lead_surrogate_def trail_surrogate_def strip_bom_def utf16_units_def)

lemma scalar_values_plain:
  "\<forall>u\<in>set us. \<not> lead_surrogate u \<and> \<not> trail_surrogate u \<Longrightarrow> scalar_values us = us"
  by (induction us rule: scalar_values.induct) simp_all

lemma encode_ascii:
  assumes "\<forall>c\<in>set s. unat c \<le> 0x7F"
  shows "TextEncoder_encode s = map ucast s"
proof -
  have "\<forall>u\<in>set (map unat s). \<not> lead_surrogate u \<and> \<not> trail_surrogate u"
    using assms by (auto simp: lead_surrogate_def trail_surrogate_def)
  then have sv: "scalar_values (map unat s) = map unat s" by (rule scalar_values_plain)
  have "concat (map utf8_bytes (map unat s)) = map unat s"
    using assms by (induction s) (simp_all add: utf8_bytes_def)
  then show ?thesis
    by (simp add: TextEncoder_encode_def sv)
qed

lemma length_encode_ascii:
  "\<forall>c\<in>set s. unat c \<le> 0x7F \<Longrightarrow> length (TextEncoder_encode s) = length s"
  by (simp add: encode_ascii)

lemma ascii_js_hello: "\<forall>c\<in>set (js ''hello''). unat c \<le> 0x7F"
  by (simp add: js_def)

lemma well_formed_hello: "well_formed (js ''hello'')"
  by (simp add: well_formed_def js_def lead_surrogate_def trail_surrogate_def)

subsection \<open>The envelope\<close>

lemma length_getRandomValues: "length (fst (getRandomValues n g)) = n"
  by (simp add: getRandomValues_def)

lemma decrypt_encrypt:
  assumes "cipher_correct P"
    and "length (TextEncoder_encode plaintext) + 16 \<le> max_arguments P"
  shows "\<exists>env g' calls.
           encrypt P g plaintext password = (Inr env, g', calls)
         \<and> decrypt P env password
             = (Inr (TextDecoder_decode (TextEncoder_encode plaintext)), [ImportKey, DeriveKey, Decrypt])"
proof -
  obtain salt_bytes g1 where s: "getRandomValues 16 g = (salt_bytes, g1)"
    by (cases "getRandomValues 16 g") auto
  obtain iv_bytes g2 where i: "getRandomValues 12 g1 = (iv_bytes, g2)"
    by (cases "getRandomValues 12 g1") auto
  define k where "k = pbkdf2_sha256 P (TextEncoder_encode password) salt_bytes 10000"
  define ct where "ct = aes_gcm_encrypt P k iv_bytes (TextEncoder_encode plaintext)"
  have ls: "length salt_bytes = 16" using length_getRandomValues [of 16 g] s by simp
  have li: "length iv_bytes = 12" using length_getRandomValues [of 12 g1] i by simp
  have lc: "length ct = length (TextEncoder_encode plaintext) + 16"
    using assms(1) by (simp add: cipher_correct_def ct_def)
  have dec: "aes_gcm_decrypt P k iv_bytes ct = Some (TextEncoder_encode plaintext)"
    using assms(1) by (simp add: cipher_correct_def ct_def)
  have b1: "arrayBufferToBase64 P ct = Inr (map of_nat (b64_encode (map unat ct)))"
    using assms(2) lc by (intro arrayBufferToBase64_ok) simp
  have b2: "arrayBufferToBase64 P iv_bytes = Inr (map of_nat (b64_encode (map unat iv_bytes)))"
    using assms(2) li by (intro arrayBufferToBase64_ok) simp
  have b3: "arrayBufferToBase64 P salt_bytes = Inr (map of_nat (b64_encode (map unat salt_bytes)))"
    using assms(2) ls by (intro arrayBufferToBase64_ok) simp
  let ?env = "\<lparr>data = map of_nat (b64_encode (map unat ct)),
               iv = map of_nat (b64_encode (map unat iv_bytes)),
               salt = map of_nat (b64_encode (map unat salt_bytes))\<rparr>"
  have e: "encrypt P g plaintext password = (Inr ?env, g2, [ImportKey, DeriveKey, Encrypt])"
    by (simp add: encrypt_def s i deriveKey_def Let_def k_def [symmetric] ct_def [symmetric] b1 b2 b3)
  have d: "decrypt P ?env password
      = (Inr (TextDecoder_decode (TextEncoder_encode plaintext)), [ImportKey, DeriveKey, Decrypt])"
    by (simp add: decrypt_def base64_roundtrip deriveKey_def k_def [symmetric] dec)
  show ?thesis using e d by blast
qed

lemma toy_cipher_correct: "cipher_correct toy_platform"
  by (simp add: cipher_correct_def toy_platform_def comp_def)

lemma roundtrip_eq:
  assumes "cipher_correct P"
    and "length (TextEncoder_encode plaintext) + 16 \<le> max_arguments P"
  shows "roundtrip P g plaintext password = Inr (TextDecoder_decode (TextEncoder_encode plaintext))"
proof -
  from decrypt_encrypt [OF assms, of g password]
  obtain env g' calls where "encrypt P g plaintext password = (Inr env, g', calls)"
    and "decrypt P env password
         = (Inr (TextDecoder_decode (TextEncoder_encode plaintext)), [ImportKey, DeriveKey, Decrypt])"
    by blast
  then show ?thesis by (simp add: roundtrip_def)
qed

lemma atob_base64ToArrayBuffer: "isl (base64ToArrayBuffer b) \<longleftrightarrow> isl (atob b)"
  by (simp add: base64ToArrayBuffer_def split: sum.splits)

lemma atob_error: "isl (atob b) \<Longrightarrow> base64ToArrayBuffer b = Inl InvalidCharacterError"
  by (auto simp: base64ToArrayBuffer_def atob_def split: option.splits)

lemma base64_error_kind: "base64ToArrayBuffer b = Inl e \<Longrightarrow> e = InvalidCharacterError"
  by (auto simp: base64ToArrayBuffer_def atob_def split: option.splits sum.splits)

lemma atob_AAAA: "atob (js ''AAAA'') = Inr [0, 0, 0]"
  by (simp add: atob_def b64_decode_def js_def ascii_whitespace_def strip_padding_def b64_value_def)

lemma atob_AA: "atob (js ''AA=='') = Inr [0]"
  by (simp add: atob_def b64_decode_def js_def ascii_whitespace_def strip_padding_def b64_value_def)

lemma atob_bad: "atob (js ''A'') = Inl InvalidCharacterError"
  by (simp add: atob_def b64_decode_def js_def ascii_whitespace_def strip_padding_def b64_value_def)

text \<open>
  Claim C4, as the spec states it, fails: an envelope whose iv decodes to 3 bytes and
  whose salt decodes to 1 byte is not refused before the cipher. The key is derived, the
  decryption is called, and the error is the one of the decryption.
\<close>

theorem decrypt_length_counterexample:
  "base64ToArrayBuffer (js ''AAAA'') = Inr [0, 0, 0]
   \<and> base64ToArrayBuffer (js ''AA=='') = Inr [0]
   \<and> decrypt toy_platform \<lparr>data = js ''AAAA'', iv = js ''AAAA'', salt = js ''AA==''\<rparr> (js ''pw'')
       = (Inl OperationError, [ImportKey, DeriveKey, Decrypt])"
  by (simp add: decrypt_def base64ToArrayBuffer_def atob_AAAA atob_AA deriveKey_def toy_platform_def)

text \<open>
  Claim C4, amended. When one of \<^verbatim>\<open>iv\<close>, \<^verbatim>\<open>salt\<close>, \<^verbatim>\<open>data\<close> is not valid base64 (\<^verbatim>\<open>atob\<close>
  throws), \<open>decrypt\<close> fails with the \<^verbatim>\<open>InvalidCharacterError\<close> of \<^verbatim>\<open>atob\<close> and has made no call
  to \<^verbatim>\<open>crypto.subtle\<close>. The lengths of the decoded iv and salt are not checked: when the
  three fields are valid base64, the key is derived and AES-GCM decryption is called,
  whatever the lengths.
\<close>

theorem decrypt_validates_base64_only:
  "(isl (atob (iv d)) \<or> isl (atob (salt d)) \<or> isl (atob (data d)) \<longrightarrow>
      decrypt P d password = (Inl InvalidCharacterError, []))
   \<and> (\<not> isl (atob (iv d)) \<and> \<not> isl (atob (salt d)) \<and> \<not> isl (atob (data d)) \<longrightarrow>
      snd (decrypt P d password) = [ImportKey, DeriveKey, Decrypt])"
proof (intro conjI impI)
  assume "isl (atob (iv d)) \<or> isl (atob (salt d)) \<or> isl (atob (data d))"
  then show "decrypt P d password = (Inl InvalidCharacterError, [])"
    by (auto simp: decrypt_def atob_error split: sum.splits dest: base64_error_kind)
next
  assume "\<not> isl (atob (iv d)) \<and> \<not> isl (atob (salt d)) \<and> \<not> isl (atob (data d))"
  then have "\<not> isl (base64ToArrayBuffer (iv d))" "\<not> isl (base64ToArrayBuffer (salt d))"
    "\<not> isl (base64ToArrayBuffer (data d))"
    by (simp_all add: atob_base64ToArrayBuffer)
  then show "snd (decrypt P d password) = [ImportKey, DeriveKey, Decrypt]"
    by (auto simp: decrypt_def deriveKey_def split: sum.splits option.splits)
qed

theorem decrypt_validates_base64_only_witness:
  "decrypt toy_platform \<lparr>data = js ''AAAA'', iv = js ''A'', salt = js ''AA==''\<rparr> (js ''pw'')
     = (Inl InvalidCharacterError, [])
   \<and> snd (decrypt toy_platform \<lparr>data = js ''AAAA'', iv = js ''AAAA'', salt = js ''AA==''\<rparr> (js ''pw''))
     = [ImportKey, DeriveKey, Decrypt]"
  using decrypt_validates_base64_only
      [of "\<lparr>data = js ''AAAA'', iv = js ''A'', salt = js ''AA==''\<rparr>" toy_platform "js ''pw''"]
    decrypt_validates_base64_only
      [of "\<lparr>data = js ''AAAA'', iv = js ''AAAA'', salt = js ''AA==''\<rparr>" toy_platform "js ''pw''"]
  by (simp add: atob_AAAA atob_AA atob_bad)

text \<open>
  Claim C1, as the spec states it (for every plaintext string), fails: a leading U+FEFF is
  dropped by \<^verbatim>\<open>TextDecoder\<close>, a surrogate without its partner comes back as U+FFFD, and
  for a plaintext of 65536 characters on an engine that passes at most 65536 arguments
  \<open>encrypt\<close> throws a \<^verbatim>\<open>RangeError\<close>.
\<close>

theorem roundtrip_counterexample:
  "roundtrip toy_platform (\<lambda>i. 0) [0xFEFF, 0x68, 0x69] (js ''pw'') = Inr [0x68, 0x69]
   \<and> roundtrip toy_platform (\<lambda>i. 0) [0xD800] (js ''pw'') = Inr [0xFFFD]
   \<and> roundtrip toy_platform (\<lambda>i. 0) (replicate 65536 0x41) (js ''pw'') = Inl RangeError"
proof -
  have l1: "length (TextEncoder_encode [0xFEFF, 0x68, 0x69]) + 16 \<le> max_arguments toy_platform"
    by (simp add: TextEncoder_encode_def utf8_bytes_def lead_surrogate_def trail_surrogate_def
        toy_platform_def)
  have l2: "length (TextEncoder_encode [0xD800]) + 16 \<le> max_arguments toy_platform"
    by (simp add: TextEncoder_encode_def utf8_bytes_def lead_surrogate_def trail_surrogate_def
        toy_platform_def)
  have a: "\<forall>c\<in>set (replicate 65536 (0x41 :: code_unit)). unat c \<le> 0x7F" by simp
  have l3: "length (TextEncoder_encode (replicate 65536 0x41)) = 65536"
    by (simp add: length_encode_ascii [OF a])
  have r3: "roundtrip toy_platform (\<lambda>i. 0) (replicate 65536 0x41) (js ''pw'') = Inl RangeError"
    by (simp add: roundtrip_def encrypt_def getRandomValues_def deriveKey_def Let_def
        toy_platform_def arrayBufferToBase64_def l3)
  show ?thesis
    using roundtrip_eq [OF toy_cipher_correct l1, of "\<lambda>i. 0" "js ''pw''"]
      roundtrip_eq [OF toy_cipher_correct l2, of "\<lambda>i. 0" "js ''pw''"] r3
    by (simp add: bom_example surrogate_example)
qed

text \<open>
  Claim C1, amended. For every password and every plaintext that is a well-formed string
  (no surrogate without its partner), does not begin with U+FEFF, and whose ciphertext
  the engine can pass to \<^verbatim>\<open>String.fromCharCode.apply\<close>, decrypting what \<open>encrypt\<close> returns,
  with the same password, gives the plaintext back; AES-GCM is assumed to decrypt what it
  has encrypted.
\<close>

theorem decrypt_encrypt_roundtrip:
  assumes "cipher_correct P"
    and "length (TextEncoder_encode plaintext) + 16 \<le> max_arguments P"
    and "well_formed plaintext"
    and "take 1 plaintext \<noteq> [0xFEFF]"
  shows "roundtrip P g plaintext password = Inr plaintext"
  using roundtrip_eq [OF assms(1,2)] text_roundtrip [OF assms(3,4)] by simp

theorem decrypt_encrypt_roundtrip_witness:
  "roundtrip toy_platform (\<lambda>i. 0) (js ''hello'') (js ''pw'') = Inr (js ''hello'')"
proof -
  have "length (TextEncoder_encode (js ''hello'')) + 16 \<le> max_arguments toy_platform"
    by (simp add: length_encode_ascii [OF ascii_js_hello] toy_platform_def length_js)
  moreover have "take 1 (js ''hello'') \<noteq> [0xFEFF]"
    by (simp add: js_def)
  ultimately show ?thesis
    using decrypt_encrypt_roundtrip [OF toy_cipher_correct _ well_formed_hello] by blast
qed

text \<open>
  Every call of \<open>encrypt\<close> takes its salt and its iv from the generator: the salt of the
  envelope is the next 16 bytes, the iv the 12 bytes after them, and the generator is
  left 28 bytes further.
\<close>

theorem encrypt_draws_salt_and_iv:
  assumes "encrypt P g plaintext password = (Inr env, g', calls)"
  shows "base64ToArrayBuffer (salt env) = Inr (map (\<lambda>i. of_nat (g i)) [0..<16])
         \<and> base64ToArrayBuffer (iv env) = Inr (map (\<lambda>i. of_nat (g (i + 16))) [0..<12])
         \<and> g' = (\<lambda>i. g (i + 28))"
proof -
  let ?salt = "map (\<lambda>i. of_nat (g i)) [0..<16] :: byte list"
  let ?iv = "map (\<lambda>i. of_nat (g (i + 16))) [0..<12] :: byte list"
  from assms obtain d i s where
    i: "arrayBufferToBase64 P ?iv = Inr i" and s: "arrayBufferToBase64 P ?salt = Inr s"
    and env: "env = \<lparr>data = d, iv = i, salt = s\<rparr>" and g': "g' = (\<lambda>i. g (i + 12 + 16))"
    by (auto simp: encrypt_def getRandomValues_def deriveKey_def Let_def split: sum.splits)
  have "base64ToArrayBuffer s = Inr ?salt" "base64ToArrayBuffer i = Inr ?iv"
    using arrayBufferToBase64_Inr [OF s] arrayBufferToBase64_Inr [OF i]
    by (simp_all only: base64_roundtrip)
  moreover have "g' = (\<lambda>i. g (i + 28))" using g' by (simp add: add.assoc)
  ultimately show ?thesis using env by simp
qed

theorem encrypt_draws_salt_and_iv_witness:
  "\<exists>env g' calls.
     encrypt toy_platform (\<lambda>i. 0) (js ''hello'') (js ''pw'') = (Inr env, g', calls)
   \<and> base64ToArrayBuffer (salt env) = Inr (replicate 16 0)
   \<and> base64ToArrayBuffer (iv env) = Inr (replicate 12 0)
   \<and> g' = (\<lambda>i. 0)"
proof -
  have "length (TextEncoder_encode (js ''hello'')) + 16 \<le> max_arguments toy_platform"
    by (simp add: length_encode_ascii [OF ascii_js_hello] toy_platform_def length_js)
  from decrypt_encrypt [OF toy_cipher_correct this, of "\<lambda>i. 0" "js ''pw''"]
  obtain env g' calls where
    e: "encrypt toy_platform (\<lambda>i. 0) (js ''hello'') (js ''pw'') = (Inr env, g', calls)"
    by blast
  from encrypt_draws_salt_and_iv [OF e]
  have "base64ToArrayBuffer (salt env) = Inr (replicate 16 0)"
    "base64ToArrayBuffer (iv env) = Inr (replicate 12 0)" "g' = (\<lambda>i. 0)"
    by (simp_all add: map_replicate_const)
  with e show ?thesis by blast
qed

end
